theory Spec2Isabelle
  imports Main "HOL-Library.Multiset" "HOL-Library.Sublist"
begin

section \<open>Cards and constants of the Blackjack object\<close>

text \<open>
  \<^verbatim>\<open>@dataclass class Card: suit: str; number: int\<close>.  The dataclass checks nothing:
  any string and any integer make a card.
\<close>

record Card =
  suit :: string
  number :: int

text \<open>The attributes that \<^verbatim>\<open>Blackjack.__init__\<close> sets once and never changes.\<close>

definition SUITS :: "string list" where
  "SUITS = [''Spades'', ''Hearts'', ''Clubs'', ''Diamonds'']"

definition ACE_LOW :: int where "ACE_LOW = 1"
definition ACE_HIGH :: int where "ACE_HIGH = 11"
definition LOWEST_CARD :: int where "LOWEST_CARD = 1"
definition HIGHEST_CARD :: int where "HIGHEST_CARD = 13"
definition WINNING_SUM :: int where "WINNING_SUM = 21"
definition MAX_ROYALTY :: int where "MAX_ROYALTY = 10"

section \<open>Hand evaluation\<close>

text \<open>
  \<^verbatim>\<open>calculate_optimal_ace_sum\<close>: the loop
  \<^verbatim>\<open>for card_idx in range(number_of_ace_cards)\<close> with the accumulator \<^verbatim>\<open>ace_sum\<close>,
  as a recursion on the loop index.
\<close>

function ace_sum_loop :: "int \<Rightarrow> int \<Rightarrow> int \<Rightarrow> int \<Rightarrow> int \<Rightarrow> int" where
  "ace_sum_loop card_idx number_of_ace_cards current_sum target_sum ace_sum =
     (if card_idx < number_of_ace_cards
      then ace_sum_loop (card_idx + 1) number_of_ace_cards current_sum target_sum
             (if current_sum + ace_sum + ACE_HIGH \<le> target_sum - card_idx
              then ace_sum + ACE_HIGH
              else ace_sum + ACE_LOW)
      else ace_sum)"
  by pat_completeness auto
termination
  by (relation "measure (\<lambda>(i, n, c, t, a). nat (n - i))") auto

declare ace_sum_loop.simps [simp del]

definition calculate_optimal_ace_sum :: "int \<Rightarrow> int \<Rightarrow> int \<Rightarrow> int" where
  "calculate_optimal_ace_sum number_of_ace_cards current_sum target_sum =
     ace_sum_loop 0 number_of_ace_cards current_sum target_sum 0"

text \<open>
  \<^verbatim>\<open>_calculate_no_aces\<close>: \<^verbatim>\<open>np.clip(np.array(stack), a_min=1, a_max=10).sum()\<close>.
  Each entry is raised to at least 1 and then cut at 10.  The numbers are numpy's
  64-bit integers; every summand lies between 1 and 10, so the sum of a hand does not
  wrap, and the model has unbounded integers.  (On the empty list numpy returns the
  floating-point zero, which Python treats as equal to the integer 0; the model has
  the integer.)
\<close>

definition clip :: "int \<Rightarrow> int \<Rightarrow> int \<Rightarrow> int" where
  "clip a_min a_max x = min a_max (max a_min x)"

definition calculate_no_aces :: "int list \<Rightarrow> int" where
  "calculate_no_aces stack = sum_list (map (clip 1 MAX_ROYALTY) stack)"

text \<open>\<^verbatim>\<open>_calculate_stack_sum\<close>, the evaluation of a hand.\<close>

definition calculate_stack_sum :: "Card list \<Rightarrow> int" where
  "calculate_stack_sum stack =
     (let num_cards_ace = int (length (filter (\<lambda>card. number card = 1) stack));
          sum_of_cards_without_ace =
            calculate_no_aces (map number (filter (\<lambda>card. number card \<noteq> 1) stack));
          ace_sum = calculate_optimal_ace_sum num_cards_ace sum_of_cards_without_ace WINNING_SUM
      in sum_of_cards_without_ace + ace_sum)"

section \<open>Winner determination\<close>

text \<open>\<^verbatim>\<open>_compute_winner\<close>: the chain of \<^verbatim>\<open>if\<close>/\<^verbatim>\<open>elif\<close>, in the source's order.\<close>

definition compute_winner :: "int \<Rightarrow> int \<Rightarrow> string" where
  "compute_winner dealer_sum player_sum =
     (if dealer_sum = WINNING_SUM \<and> player_sum = WINNING_SUM then ''NONE''
      else if dealer_sum = WINNING_SUM then ''DEALER''
      else if WINNING_SUM > dealer_sum \<and> dealer_sum > player_sum then ''DEALER''
      else if player_sum > WINNING_SUM then ''DEALER''
      else if player_sum = WINNING_SUM then ''PLAYER''
      else if dealer_sum < player_sum \<and> player_sum < WINNING_SUM then ''PLAYER''
      else ''NONE'')"

section \<open>The game object\<close>

text \<open>
  The mutable attributes of a \<^verbatim>\<open>Blackjack\<close> object.  Every player's stack is a list of
  its own (\<^verbatim>\<open>[[] for _ in range(n)]\<close>), so no two hands alias.
\<close>

record Blackjack =
  num_decks :: int
  num_players :: int
  card_stack :: "Card list"
  dealer_stack :: "Card list"
  player_stacks :: "Card list list"
  player_dones :: "bool list"
  current_turn :: int

text \<open>
  The only exception that the modelled methods can raise is Python's built-in
  \<^verbatim>\<open>IndexError\<close>, with the interpreter's message.  A method returns its result, or the
  exception, together with the object as the call left it: what was mutated before
  the exception stays mutated.
\<close>

datatype error = IndexError string

type_synonym 'a result = "error + 'a"

text \<open>\<^verbatim>\<open>range(n)\<close> is \<open>0, \<dots>, n - 1\<close>, empty for \<open>n \<le> 0\<close>.\<close>

definition py_range :: "int \<Rightarrow> int list" where
  "py_range n = [0..n - 1]"

text \<open>
  \<^verbatim>\<open>_create_stack\<close>.  \<^verbatim>\<open>random.shuffle\<close> belongs to the standard library; the
  rearrangement it applies is the parameter \<open>shuffle\<close>.  No statement of the body can
  raise, so the result is never an exception.
\<close>

definition create_stack :: "(Card list \<Rightarrow> Card list) \<Rightarrow> int \<Rightarrow> Card list result" where
  "create_stack shuffle n_decks =
     (let the_list =
            concat (map (\<lambda>_. concat (map (\<lambda>s. map (\<lambda>num. \<lparr>suit = s, number = num\<rparr>)
                                                      [LOWEST_CARD..HIGHEST_CARD])
                                          SUITS))
                        (py_range n_decks))
      in Inr (shuffle the_list))"

text \<open>\<^verbatim>\<open>Blackjack.__init__\<close>: no check of either argument.\<close>

definition Blackjack_init :: "(Card list \<Rightarrow> Card list) \<Rightarrow> int \<Rightarrow> int \<Rightarrow> Blackjack result" where
  "Blackjack_init shuffle n_decks n_players =
     (case create_stack shuffle n_decks of
        Inl e \<Rightarrow> Inl e
      | Inr the_stack \<Rightarrow>
          Inr \<lparr>num_decks = n_decks,
               num_players = n_players,
               card_stack = the_stack,
               dealer_stack = [],
               player_stacks = map (\<lambda>_. []) (py_range n_players),
               player_dones = map (\<lambda>_. False) (py_range n_players),
               current_turn = 0\<rparr>)"

text \<open>\<^verbatim>\<open>_draw_card\<close>: \<^verbatim>\<open>list.pop()\<close> takes the last element and raises on the empty list.\<close>

definition draw_card :: "Blackjack \<Rightarrow> Card result \<times> Blackjack" where
  "draw_card self =
     (if card_stack self = [] then (Inl (IndexError ''pop from empty list''), self)
      else (Inr (last (card_stack self)), self\<lparr>card_stack := butlast (card_stack self)\<rparr>))"

text \<open>\<^verbatim>\<open>dealer_draw\<close>; \<open>silent\<close> only decides what is printed.\<close>

definition dealer_draw :: "bool \<Rightarrow> Blackjack \<Rightarrow> bool result \<times> Blackjack" where
  "dealer_draw silent self =
     (let current_sum = calculate_stack_sum (dealer_stack self)
      in if current_sum < 17
         then (case draw_card self of
                 (Inl e, self') \<Rightarrow> (Inl e, self')
               | (Inr drawn_card, self') \<Rightarrow>
                   (Inr False, self'\<lparr>dealer_stack := dealer_stack self' @ [drawn_card]\<rparr>))
         else (Inr True, self))"

text \<open>
  \<^verbatim>\<open>player_draw\<close>: the card is popped first, then \<^verbatim>\<open>self._player_stacks[player_idx]\<close>
  is looked up.  A negative index counts from the end; an index outside
  \<open>-len, \<dots>, len - 1\<close> raises after the card has left the deck.  The method never reads
  \<^verbatim>\<open>_player_dones\<close>.
\<close>

definition player_draw :: "int \<Rightarrow> Blackjack \<Rightarrow> Card result \<times> Blackjack" where
  "player_draw player_idx self =
     (case draw_card self of
        (Inl e, self') \<Rightarrow> (Inl e, self')
      | (Inr drawn_card, self') \<Rightarrow>
          (let len = int (length (player_stacks self'));
               j = (if player_idx < 0 then player_idx + len else player_idx)
           in if 0 \<le> j \<and> j < len
              then (Inr drawn_card,
                    self'\<lparr>player_stacks :=
                            (player_stacks self')[nat j := player_stacks self' ! nat j @ [drawn_card]]\<rparr>)
              else (Inl (IndexError ''list index out of range''), self')))"

text \<open>A \<^verbatim>\<open>for\<close> loop whose body may raise: the first exception ends the loop.\<close>

fun for_each :: "'a list \<Rightarrow> ('a \<Rightarrow> Blackjack \<Rightarrow> 'b result \<times> Blackjack) \<Rightarrow> Blackjack
                 \<Rightarrow> unit result \<times> Blackjack" where
  "for_each [] body self = (Inr (), self)"
| "for_each (x # xs) body self =
     (case body x self of
        (Inl e, self') \<Rightarrow> (Inl e, self')
      | (Inr _, self') \<Rightarrow> for_each xs body self')"

text \<open>\<^verbatim>\<open>initial_deal\<close>.\<close>

definition initial_deal :: "Blackjack \<Rightarrow> unit result \<times> Blackjack" where
  "initial_deal self =
     (case dealer_draw False self of
        (Inl e, s1) \<Rightarrow> (Inl e, s1)
      | (Inr _, s1) \<Rightarrow>
          (case dealer_draw True s1 of
             (Inl e, s2) \<Rightarrow> (Inl e, s2)
           | (Inr _, s2) \<Rightarrow>
               for_each (py_range (num_players s2))
                 (\<lambda>player_idx. for_each (py_range 2) (\<lambda>_. player_draw player_idx)) s2))"

text \<open>\<^verbatim>\<open>_get_sums\<close> and \<^verbatim>\<open>compute_winners\<close>.\<close>

definition get_sums :: "Blackjack \<Rightarrow> int \<times> int list" where
  "get_sums self =
     (calculate_stack_sum (dealer_stack self), map calculate_stack_sum (player_stacks self))"

definition compute_winners :: "Blackjack \<Rightarrow> string list" where
  "compute_winners self =
     (case get_sums self of
        (dealer_sum, player_sums) \<Rightarrow> map (compute_winner dealer_sum) player_sums)"

section \<open>Notions of the specification\<close>

text \<open>
  The number of Aces of a hand and the clipped sum of its other cards, as
  \<^verbatim>\<open>_calculate_stack_sum\<close> computes them; every way of counting \<open>n\<close> Aces, each as 1
  or as 11; and the totals a hand can be given: the sum of the other cards plus one
  such choice.
\<close>

definition num_aces :: "Card list \<Rightarrow> int" where
  "num_aces stack = int (length (filter (\<lambda>card. number card = 1) stack))"

definition non_ace_sum :: "Card list \<Rightarrow> int" where
  "non_ace_sum stack = calculate_no_aces (map number (filter (\<lambda>card. number card \<noteq> 1) stack))"

fun ace_assignments :: "nat \<Rightarrow> int list list" where
  "ace_assignments 0 = [[]]"
| "ace_assignments (Suc n) =
     concat (map (\<lambda>vs. [ACE_LOW # vs, ACE_HIGH # vs]) (ace_assignments n))"

definition hand_totals :: "Card list \<Rightarrow> int list" where
  "hand_totals stack =
     map (\<lambda>vs. non_ace_sum stack + sum_list vs) (ace_assignments (nat (num_aces stack)))"

text \<open>
  A total is optimal for a hand when some choice produces it and, if any choice stays
  at or below 21, it is the largest such total.
\<close>

definition blackjack_optimal :: "Card list \<Rightarrow> int \<Rightarrow> bool" where
  "blackjack_optimal stack t \<longleftrightarrow>
     t \<in> set (hand_totals stack) \<and>
     ((\<exists>u \<in> set (hand_totals stack). u \<le> 21) \<longrightarrow>
        t \<le> 21 \<and> (\<forall>u \<in> set (hand_totals stack). u \<le> 21 \<longrightarrow> u \<le> t))"

text \<open>
  The decision table of the outcome resolver, as the specification lists it: the
  first rule whose condition holds gives the outcome, and a pair that no rule matches
  has no winner.
\<close>

definition resolve_rules :: "((int \<Rightarrow> int \<Rightarrow> bool) \<times> string) list" where
  "resolve_rules =
     [(\<lambda>d p. d = 21 \<and> p = 21, ''NONE''),
      (\<lambda>d p. d = 21, ''DEALER''),
      (\<lambda>d p. d < 21 \<and> d > p, ''DEALER''),
      (\<lambda>d p. p > 21, ''DEALER''),
      (\<lambda>d p. p = 21, ''PLAYER''),
      (\<lambda>d p. d < p \<and> p < 21, ''PLAYER'')]"

fun first_match :: "((int \<Rightarrow> int \<Rightarrow> bool) \<times> string) list \<Rightarrow> int \<Rightarrow> int \<Rightarrow> string" where
  "first_match [] d p = ''NONE''"
| "first_match ((cond, outcome) # rules) d p =
     (if cond d p then outcome else first_match rules d p)"

text \<open>The cards of one standard deck, and all the cards a game holds.\<close>

definition standard_deck :: "Card list" where
  "standard_deck = [\<lparr>suit = s, number = r\<rparr>. s \<leftarrow> SUITS, r \<leftarrow> [1..13]]"

definition cards_in_game :: "Blackjack \<Rightarrow> Card multiset" where
  "cards_in_game self =
     mset (card_stack self) + mset (dealer_stack self) + mset (concat (player_stacks self))"

text \<open>
  The states a game goes through: the object as the constructor leaves it, and what
  the initial deal, a hit that returns a card, a step of the dealer and the
  bookkeeping of \<^verbatim>\<open>run\<close> (the done flags and the turn counter) make of it.
\<close>

inductive game_state :: "(Card list \<Rightarrow> Card list) \<Rightarrow> int \<Rightarrow> int \<Rightarrow> Blackjack \<Rightarrow> bool"
  for shuffle :: "Card list \<Rightarrow> Card list" and n_decks :: int and n_players :: int where
  created: "Blackjack_init shuffle n_decks n_players = Inr g \<Longrightarrow>
            game_state shuffle n_decks n_players g"
| dealt: "game_state shuffle n_decks n_players g \<Longrightarrow>
          game_state shuffle n_decks n_players (snd (initial_deal g))"
| player_hit: "game_state shuffle n_decks n_players g \<Longrightarrow>
               player_draw player_idx g = (Inr drawn_card, g') \<Longrightarrow>
               game_state shuffle n_decks n_players g'"
| dealer_played: "game_state shuffle n_decks n_players g \<Longrightarrow>
                  game_state shuffle n_decks n_players (snd (dealer_draw silent g))"
| turn_recorded: "game_state shuffle n_decks n_players g \<Longrightarrow>
                  game_state shuffle n_decks n_players
                    (g\<lparr>player_dones := dones, current_turn := turn\<rparr>)"

text \<open>
  What dealing may do to a game: cards leave the deck at its end only, every hand keeps
  its cards and gains cards at its end only, and the deck and the hands together hold
  the same cards as before; so the cards the hands gained are the cards the deck lost.
\<close>

definition deals :: "Blackjack \<Rightarrow> Blackjack \<Rightarrow> bool" where
  "deals g g' \<longleftrightarrow>
     prefix (card_stack g') (card_stack g) \<and>
     prefix (dealer_stack g) (dealer_stack g') \<and>
     list_all2 prefix (player_stacks g) (player_stacks g') \<and>
     cards_in_game g' = cards_in_game g"

text \<open>A game holding the cards \<open>M\<close> with one hand for each of its \<open>p\<close> players.\<close>

definition table_of :: "Card multiset \<Rightarrow> int \<Rightarrow> Blackjack \<Rightarrow> bool" where
  "table_of M p g \<longleftrightarrow>
     cards_in_game g = M \<and> num_players g = p \<and> length (player_stacks g) = nat p"

section \<open>The closed form of the Ace loop\<close>

text \<open>
  Once the test of the loop has failed at some index it fails at every later one: the
  left side grows by one with each low Ace while the right side shrinks by one.
\<close>

lemma loop_all_low:
  "current_sum + ace_sum + 11 > target_sum - card_idx \<Longrightarrow> card_idx \<le> n \<Longrightarrow>
   ace_sum_loop card_idx n current_sum target_sum ace_sum = ace_sum + (n - card_idx)"
proof (induction card_idx n current_sum target_sum ace_sum rule: ace_sum_loop.induct)
  case (1 i n c t a)
  show ?case
  proof (cases "i < n")
    case True
    have "ace_sum_loop i n c t a = ace_sum_loop (i + 1) n c t (a + 1)"
      using True "1.prems" by (subst ace_sum_loop.simps) (simp add: ACE_HIGH_def ACE_LOW_def)
    also have "\<dots> = (a + 1) + (n - (i + 1))"
      using "1.IH" [OF True] True "1.prems" by (simp add: ACE_HIGH_def ACE_LOW_def)
    finally show ?thesis by simp
  next
    case False
    with "1.prems" show ?thesis by (subst ace_sum_loop.simps) simp
  qed
qed

lemma optimal_ace_sum_closed:
  assumes "0 \<le> s" "0 \<le> n"
  shows "calculate_optimal_ace_sum n s 21 = (if 1 \<le> n \<and> s \<le> 10 then n + 10 else n)"
proof (cases "1 \<le> n")
  case False
  with assms have "n = 0" by simp
  then show ?thesis
    unfolding calculate_optimal_ace_sum_def by (subst ace_sum_loop.simps) simp
next
  case True
  show ?thesis
  proof (cases "s \<le> 10")
    case True
    have "calculate_optimal_ace_sum n s 21 = ace_sum_loop 1 n s 21 11"
      unfolding calculate_optimal_ace_sum_def using \<open>1 \<le> n\<close> True
      by (subst ace_sum_loop.simps) (simp add: ACE_HIGH_def ACE_LOW_def)
    also have "\<dots> = 11 + (n - 1)"
      using \<open>1 \<le> n\<close> assms by (intro loop_all_low) simp_all
    finally show ?thesis using True \<open>1 \<le> n\<close> by simp
  next
    case False
    have "calculate_optimal_ace_sum n s 21 = ace_sum_loop 1 n s 21 1"
      unfolding calculate_optimal_ace_sum_def using \<open>1 \<le> n\<close> False
      by (subst ace_sum_loop.simps) (simp add: ACE_HIGH_def ACE_LOW_def)
    also have "\<dots> = 1 + (n - 1)"
      using \<open>1 \<le> n\<close> False by (intro loop_all_low) simp_all
    finally show ?thesis using False by simp
  qed
qed

lemma calculate_no_aces_nonneg: "0 \<le> calculate_no_aces xs"
  unfolding calculate_no_aces_def by (induction xs) (simp_all add: clip_def MAX_ROYALTY_def)

lemma non_ace_sum_nonneg: "0 \<le> non_ace_sum stack"
  unfolding non_ace_sum_def by (rule calculate_no_aces_nonneg)

lemma num_aces_nonneg: "0 \<le> num_aces stack"
  unfolding num_aces_def by simp

lemma stack_sum_parts:
  "calculate_stack_sum stack =
     non_ace_sum stack + calculate_optimal_ace_sum (num_aces stack) (non_ace_sum stack) 21"
  unfolding calculate_stack_sum_def num_aces_def non_ace_sum_def WINNING_SUM_def
  by (simp add: Let_def)

lemma stack_sum_closed:
  "calculate_stack_sum stack =
     (if 1 \<le> num_aces stack \<and> non_ace_sum stack \<le> 10
      then non_ace_sum stack + num_aces stack + 10
      else non_ace_sum stack + num_aces stack)"
  unfolding stack_sum_parts
  by (simp add: optimal_ace_sum_closed [OF non_ace_sum_nonneg num_aces_nonneg])

text \<open>
  C10.  At most one Ace counts as 11.  For a number \<open>n\<close> of Aces and a sum \<open>s\<close> of the
  other cards, neither negative, the loop returns \<open>n + 10\<close> when there is an Ace and
  \<open>s \<le> 10\<close>, and \<open>n\<close> otherwise; the number of Aces and the clipped sum of the other cards
  of a hand are never negative, so every hand evaluates to \<open>s + n + 10\<close> in the first
  case and to \<open>s + n\<close> in the second.
\<close>

theorem ace_closed_form:
  "(\<forall>n s. 0 \<le> n \<and> 0 \<le> s \<longrightarrow>
       calculate_optimal_ace_sum n s WINNING_SUM = (if 1 \<le> n \<and> s \<le> 10 then n + 10 else n)) \<and>
   0 \<le> num_aces stack \<and> 0 \<le> non_ace_sum stack \<and>
   calculate_stack_sum stack =
     (if 1 \<le> num_aces stack \<and> non_ace_sum stack \<le> 10
      then non_ace_sum stack + num_aces stack + 10
      else non_ace_sum stack + num_aces stack)"
  using optimal_ace_sum_closed stack_sum_closed [of stack]
    non_ace_sum_nonneg [of stack] num_aces_nonneg [of stack]
  by (simp add: WINNING_SUM_def)

theorem ace_closed_form_witness:
  "(0::int) \<le> 2 \<and> (0::int) \<le> 9 \<and> calculate_optimal_ace_sum 2 9 WINNING_SUM = 12 \<and>
   calculate_optimal_ace_sum 3 11 WINNING_SUM = 3"
  using ace_closed_form [of "[]"] by simp

section \<open>Hands with at most one Ace\<close>

lemma clip_is_min: "1 \<le> x \<Longrightarrow> clip 1 MAX_ROYALTY x = min x 10"
  by (simp add: clip_def MAX_ROYALTY_def)

lemma no_aces_is_min_sum:
  "\<forall>c \<in> set cs. 1 \<le> number c \<Longrightarrow>
   calculate_no_aces (map number cs) = sum_list (map (\<lambda>c. min (number c) 10) cs)"
  unfolding calculate_no_aces_def by (induction cs) (simp_all add: clip_is_min)

lemma non_ace_sum_is_min_sum:
  assumes "\<forall>c \<in> set stack. 1 \<le> number c"
  shows "non_ace_sum stack =
         sum_list (map (\<lambda>c. min (number c) 10) (filter (\<lambda>c. number c \<noteq> 1) stack))"
  unfolding non_ace_sum_def using assms by (intro no_aces_is_min_sum) simp

lemma no_ace_filter: "num_aces stack = 0 \<Longrightarrow> filter (\<lambda>c. number c \<noteq> 1) stack = stack"
  unfolding num_aces_def by (simp add: filter_empty_conv)

text \<open>
  C3.  For a hand of cards of rank at least 1: without an Ace it evaluates to the sum
  of \<open>min rank 10\<close> over its cards, with no cap; with exactly one Ace and the sum \<open>s\<close> of
  \<open>min rank 10\<close> over the other cards it evaluates to \<open>s + 11\<close> if that is at most 21 and
  to \<open>s + 1\<close> otherwise.  The empty hand evaluates to 0, and a hand of ranks 1 to 13
  without an Ace can evaluate to more than 21.
\<close>

theorem at_most_one_ace_formula:
  assumes "\<forall>c \<in> set stack. 1 \<le> number c"
  shows "(num_aces stack = 0 \<longrightarrow>
            calculate_stack_sum stack = sum_list (map (\<lambda>c. min (number c) 10) stack)) \<and>
         (num_aces stack = 1 \<longrightarrow>
            calculate_stack_sum stack =
              (let s = sum_list (map (\<lambda>c. min (number c) 10) (filter (\<lambda>c. number c \<noteq> 1) stack))
               in if s + 11 \<le> 21 then s + 11 else s + 1)) \<and>
         calculate_stack_sum [] = 0 \<and>
         (\<exists>h. (\<forall>c \<in> set h. 1 \<le> number c \<and> number c \<le> 13) \<and> num_aces h = 0 \<and>
              21 < calculate_stack_sum h)"
proof (intro conjI impI)
  assume "num_aces stack = 0"
  then show "calculate_stack_sum stack = sum_list (map (\<lambda>c. min (number c) 10) stack)"
    using non_ace_sum_is_min_sum [OF assms] no_ace_filter [of stack]
    by (simp add: stack_sum_closed)
next
  assume "num_aces stack = 1"
  then show "calculate_stack_sum stack =
      (let s = sum_list (map (\<lambda>c. min (number c) 10) (filter (\<lambda>c. number c \<noteq> 1) stack))
       in if s + 11 \<le> 21 then s + 11 else s + 1)"
    using non_ace_sum_is_min_sum [OF assms] by (simp add: stack_sum_closed Let_def)
next
  show "calculate_stack_sum [] = 0"
    by (simp add: stack_sum_closed num_aces_def non_ace_sum_def calculate_no_aces_def)
next
  let ?h = "[\<lparr>suit = ''Spades'', number = 13\<rparr>, \<lparr>suit = ''Hearts'', number = 12\<rparr>,
             \<lparr>suit = ''Clubs'', number = 7\<rparr>]"
  have "(\<forall>c \<in> set ?h. 1 \<le> number c \<and> number c \<le> 13) \<and> num_aces ?h = 0 \<and>
        21 < calculate_stack_sum ?h"
    by (simp add: stack_sum_closed num_aces_def non_ace_sum_def calculate_no_aces_def
        clip_def MAX_ROYALTY_def)
  then show "\<exists>h. (\<forall>c \<in> set h. 1 \<le> number c \<and> number c \<le> 13) \<and> num_aces h = 0 \<and>
                 21 < calculate_stack_sum h"
    by (rule exI)
qed

theorem at_most_one_ace_formula_witness:
  "list_all (\<lambda>c. 1 \<le> number c) [\<lparr>suit = ''Spades'', number = 13\<rparr>, \<lparr>suit = ''Hearts'', number = 12\<rparr>,
              \<lparr>suit = ''Clubs'', number = 7\<rparr>] \<and>
   num_aces [\<lparr>suit = ''Spades'', number = 13\<rparr>, \<lparr>suit = ''Hearts'', number = 12\<rparr>,
             \<lparr>suit = ''Clubs'', number = 7\<rparr>] = 0 \<and>
   calculate_stack_sum [\<lparr>suit = ''Spades'', number = 13\<rparr>, \<lparr>suit = ''Hearts'', number = 12\<rparr>,
                        \<lparr>suit = ''Clubs'', number = 7\<rparr>] = 27 \<and>
   list_all (\<lambda>c. 1 \<le> number c) [\<lparr>suit = ''Spades'', number = 1\<rparr>, \<lparr>suit = ''Hearts'', number = 9\<rparr>] \<and>
   num_aces [\<lparr>suit = ''Spades'', number = 1\<rparr>, \<lparr>suit = ''Hearts'', number = 9\<rparr>] = 1 \<and>
   calculate_stack_sum [\<lparr>suit = ''Spades'', number = 1\<rparr>, \<lparr>suit = ''Hearts'', number = 9\<rparr>] = 20 \<and>
   list_all (\<lambda>c. 1 \<le> number c) [\<lparr>suit = ''Diamonds'', number = 11\<rparr>, \<lparr>suit = ''Spades'', number = 1\<rparr>,
              \<lparr>suit = ''Hearts'', number = 5\<rparr>] \<and>
   num_aces [\<lparr>suit = ''Diamonds'', number = 11\<rparr>, \<lparr>suit = ''Spades'', number = 1\<rparr>,
             \<lparr>suit = ''Hearts'', number = 5\<rparr>] = 1 \<and>
   calculate_stack_sum [\<lparr>suit = ''Diamonds'', number = 11\<rparr>, \<lparr>suit = ''Spades'', number = 1\<rparr>,
                        \<lparr>suit = ''Hearts'', number = 5\<rparr>] = 16"
  using at_most_one_ace_formula [of "[\<lparr>suit = ''Spades'', number = 13\<rparr>,
          \<lparr>suit = ''Hearts'', number = 12\<rparr>, \<lparr>suit = ''Clubs'', number = 7\<rparr>]"]
        at_most_one_ace_formula [of "[\<lparr>suit = ''Spades'', number = 1\<rparr>,
          \<lparr>suit = ''Hearts'', number = 9\<rparr>]"]
        at_most_one_ace_formula [of "[\<lparr>suit = ''Diamonds'', number = 11\<rparr>,
          \<lparr>suit = ''Spades'', number = 1\<rparr>, \<lparr>suit = ''Hearts'', number = 5\<rparr>]"]
  by (simp add: num_aces_def)

text \<open>
  The bound on the ranks is needed: numpy raises a number below 1 to 1, so a card
  numbered 0 counts 1 where \<open>min rank 10\<close> would count 0.
\<close>

lemma rank_below_one_counts_one: "calculate_stack_sum [\<lparr>suit = s, number = 0\<rparr>] = 1"
  by (simp add: stack_sum_closed num_aces_def non_ace_sum_def calculate_no_aces_def
      clip_def MAX_ROYALTY_def)

section \<open>Evaluation does not depend on the order of the cards\<close>

lemma num_aces_mset: "num_aces stack = int (size (filter_mset (\<lambda>c. number c = 1) (mset stack)))"
  unfolding num_aces_def by (simp flip: mset_filter)

lemma non_ace_sum_mset:
  "non_ace_sum stack =
     sum_mset (image_mset (\<lambda>c. clip 1 MAX_ROYALTY (number c))
                          (filter_mset (\<lambda>c. number c \<noteq> 1) (mset stack)))"
proof -
  have "non_ace_sum stack =
        sum_list (map (\<lambda>c. clip 1 MAX_ROYALTY (number c)) (filter (\<lambda>c. number c \<noteq> 1) stack))"
    unfolding non_ace_sum_def calculate_no_aces_def by (simp add: comp_def)
  also have "\<dots> = sum_mset (mset (map (\<lambda>c. clip 1 MAX_ROYALTY (number c))
                                       (filter (\<lambda>c. number c \<noteq> 1) stack)))"
    by (simp only: sum_mset_sum_list)
  finally show ?thesis by simp
qed

text \<open>
  C9.  Two hands with the same cards, in any order, evaluate to the same sum.
\<close>

theorem evaluate_permutation_invariant:
  assumes "mset stack = mset stack'"
  shows "calculate_stack_sum stack = calculate_stack_sum stack'"
proof -
  have "num_aces stack = num_aces stack'"
    using assms by (simp add: num_aces_mset)
  moreover have "non_ace_sum stack = non_ace_sum stack'"
    using assms by (simp add: non_ace_sum_mset)
  ultimately show ?thesis by (simp add: stack_sum_parts)
qed

theorem evaluate_permutation_invariant_witness:
  "mset [\<lparr>suit = ''Spades'', number = 1\<rparr>, \<lparr>suit = ''Hearts'', number = 12\<rparr>,
         \<lparr>suit = ''Clubs'', number = 1\<rparr>, \<lparr>suit = ''Clubs'', number = 4\<rparr>]
     = mset [\<lparr>suit = ''Clubs'', number = 4\<rparr>, \<lparr>suit = ''Clubs'', number = 1\<rparr>,
             \<lparr>suit = ''Spades'', number = 1\<rparr>, \<lparr>suit = ''Hearts'', number = 12\<rparr>] \<and>
   calculate_stack_sum [\<lparr>suit = ''Spades'', number = 1\<rparr>, \<lparr>suit = ''Hearts'', number = 12\<rparr>,
                        \<lparr>suit = ''Clubs'', number = 1\<rparr>, \<lparr>suit = ''Clubs'', number = 4\<rparr>]
     = calculate_stack_sum [\<lparr>suit = ''Clubs'', number = 4\<rparr>, \<lparr>suit = ''Clubs'', number = 1\<rparr>,
                            \<lparr>suit = ''Spades'', number = 1\<rparr>, \<lparr>suit = ''Hearts'', number = 12\<rparr>]"
proof -
  have h: "mset [\<lparr>suit = ''Spades'', number = 1\<rparr>, \<lparr>suit = ''Hearts'', number = 12\<rparr>,
                 \<lparr>suit = ''Clubs'', number = 1\<rparr>, \<lparr>suit = ''Clubs'', number = 4\<rparr>]
     = mset [\<lparr>suit = ''Clubs'', number = 4\<rparr>, \<lparr>suit = ''Clubs'', number = 1\<rparr>,
             \<lparr>suit = ''Spades'', number = 1\<rparr>, \<lparr>suit = ''Hearts'', number = 12\<rparr>]"
    by simp
  show ?thesis using h evaluate_permutation_invariant [OF h] by simp
qed

section \<open>Where the evaluation is the best total\<close>

text \<open>
  A hand with \<open>n\<close> Aces and the sum \<open>s\<close> of its other cards can be given exactly the
  totals \<open>s + n + 10 * j\<close> with \<open>j\<close> of the Aces high.
\<close>

lemma ace_assignments_sum:
  "vs \<in> set (ace_assignments n) \<Longrightarrow> \<exists>j. 0 \<le> j \<and> j \<le> int n \<and> sum_list vs = int n + 10 * j"
proof (induction n arbitrary: vs)
  case 0
  then show ?case by simp
next
  case (Suc n)
  then obtain ws where ws: "ws \<in> set (ace_assignments n)" and vs: "vs = 1 # ws \<or> vs = 11 # ws"
    by (auto simp: ACE_LOW_def ACE_HIGH_def)
  from Suc.IH [OF ws] obtain j where j: "0 \<le> j" "j \<le> int n" "sum_list ws = int n + 10 * j"
    by blast
  from vs show ?case
  proof
    assume "vs = 1 # ws"
    with j have "0 \<le> j \<and> j \<le> int (Suc n) \<and> sum_list vs = int (Suc n) + 10 * j" by simp
    then show ?thesis by blast
  next
    assume "vs = 11 # ws"
    with j have "0 \<le> j + 1 \<and> j + 1 \<le> int (Suc n) \<and> sum_list vs = int (Suc n) + 10 * (j + 1)"
      by simp
    then show ?thesis by blast
  qed
qed

lemma all_low_assignment: "replicate n 1 \<in> set (ace_assignments n)"
  by (induction n) (auto simp: ACE_LOW_def)

lemma one_high_assignment: "11 # replicate n 1 \<in> set (ace_assignments (Suc n))"
  using all_low_assignment [of n] by (auto simp: ACE_HIGH_def)

lemma sum_list_replicate_one: "sum_list (replicate n (1::int)) = int n"
  by (induction n) simp_all

lemma totals_form:
  assumes "u \<in> set (hand_totals stack)"
  shows "\<exists>j. 0 \<le> j \<and> j \<le> num_aces stack \<and> u = non_ace_sum stack + num_aces stack + 10 * j"
proof -
  from assms obtain vs where vs: "vs \<in> set (ace_assignments (nat (num_aces stack)))"
    and u: "u = non_ace_sum stack + sum_list vs"
    unfolding hand_totals_def by auto
  from ace_assignments_sum [OF vs] u num_aces_nonneg [of stack] show ?thesis
    by auto
qed

lemma all_low_total: "non_ace_sum stack + num_aces stack \<in> set (hand_totals stack)"
proof -
  let ?k = "nat (num_aces stack)" and ?f = "\<lambda>vs. non_ace_sum stack + sum_list vs"
  have "?f (replicate ?k 1) \<in> ?f ` set (ace_assignments ?k)"
    using all_low_assignment by (rule imageI)
  then have "?f (replicate ?k 1) \<in> set (hand_totals stack)"
    by (simp add: hand_totals_def)
  then show ?thesis using num_aces_nonneg [of stack] by (simp add: sum_list_replicate_one)
qed

lemma one_high_total:
  assumes "1 \<le> num_aces stack"
  shows "non_ace_sum stack + num_aces stack + 10 \<in> set (hand_totals stack)"
proof -
  let ?f = "\<lambda>vs. non_ace_sum stack + sum_list vs"
  from assms obtain m where m: "nat (num_aces stack) = Suc m"
    by (cases "nat (num_aces stack)") auto
  have "?f (11 # replicate m 1) \<in> ?f ` set (ace_assignments (Suc m))"
    using one_high_assignment by (rule imageI)
  then have mem: "?f (11 # replicate m 1) \<in> set (hand_totals stack)"
    by (simp add: hand_totals_def m)
  have eq: "?f (11 # replicate m 1) = non_ace_sum stack + num_aces stack + 10"
    using m by (simp add: sum_list_replicate_one)
  show ?thesis using mem unfolding eq .
qed

lemma optimal_when_one_high_fits:
  assumes "1 \<le> num_aces stack" "non_ace_sum stack + num_aces stack \<le> 11"
  shows "blackjack_optimal stack (non_ace_sum stack + num_aces stack + 10)"
proof -
  let ?n = "num_aces stack" and ?s = "non_ace_sum stack"
  have "u \<le> ?s + ?n + 10" if "u \<in> set (hand_totals stack)" "u \<le> 21" for u
  proof -
    from totals_form [OF that(1)] obtain j where
      j: "0 \<le> j" "j \<le> ?n" "u = ?s + ?n + 10 * j" by blast
    with that(2) non_ace_sum_nonneg [of stack] have "j \<le> 1" by linarith
    with j show ?thesis by linarith
  qed
  then have "\<forall>u \<in> set (hand_totals stack). u \<le> 21 \<longrightarrow> u \<le> ?s + ?n + 10" by blast
  moreover have "?s + ?n + 10 \<le> 21" using assms by simp
  ultimately show ?thesis
    unfolding blackjack_optimal_def using one_high_total [OF assms(1)] by blast
qed

lemma optimal_when_all_low:
  assumes "num_aces stack = 0 \<or> 10 < non_ace_sum stack"
  shows "blackjack_optimal stack (non_ace_sum stack + num_aces stack)"
proof -
  let ?n = "num_aces stack" and ?s = "non_ace_sum stack"
  have eq: "u = ?s + ?n" if "u \<in> set (hand_totals stack)" "u \<le> 21" for u
  proof -
    from totals_form [OF that(1)] obtain j where
      j: "0 \<le> j" "j \<le> ?n" "u = ?s + ?n + 10 * j" by blast
    with that(2) assms have "j \<le> 0" by linarith
    with j show ?thesis by linarith
  qed
  then have "\<forall>u \<in> set (hand_totals stack). u \<le> 21 \<longrightarrow> u \<le> ?s + ?n" by blast
  moreover have "(\<exists>u \<in> set (hand_totals stack). u \<le> 21) \<longrightarrow> ?s + ?n \<le> 21"
    using eq by blast
  ultimately show ?thesis
    unfolding blackjack_optimal_def using all_low_total [of stack] by blast
qed

lemma optimal_when_all_bust:
  assumes "21 < non_ace_sum stack + num_aces stack" "t \<in> set (hand_totals stack)"
  shows "blackjack_optimal stack t"
proof -
  have "\<not> u \<le> 21" if "u \<in> set (hand_totals stack)" for u
  proof -
    from totals_form [OF that] obtain j where
      j: "0 \<le> j" "u = non_ace_sum stack + num_aces stack + 10 * j" by blast
    with assms(1) show ?thesis by linarith
  qed
  then have "\<not> (\<exists>u \<in> set (hand_totals stack). u \<le> 21)" by blast
  with assms(2) show ?thesis unfolding blackjack_optimal_def by blast
qed

lemma not_optimal_when_overshooting:
  assumes "non_ace_sum stack + num_aces stack \<le> 21" "11 < non_ace_sum stack + num_aces stack"
  shows "\<not> blackjack_optimal stack (non_ace_sum stack + num_aces stack + 10)"
proof
  assume opt: "blackjack_optimal stack (non_ace_sum stack + num_aces stack + 10)"
  have "\<exists>u \<in> set (hand_totals stack). u \<le> 21"
    using all_low_total [of stack] assms(1) by blast
  with opt have "non_ace_sum stack + num_aces stack + 10 \<le> 21"
    unfolding blackjack_optimal_def by blast
  with assms(2) show False by linarith
qed

text \<open>
  The evaluation is the best total of the hand except when there are at least two
  Aces, the other cards sum to at most 10, and all Aces low give a total from 12 to 21:
  the first Ace is then counted high although the Aces after it push the hand over 21.
\<close>

lemma evaluate_optimal_iff:
  "blackjack_optimal stack (calculate_stack_sum stack) \<longleftrightarrow>
     \<not> (2 \<le> num_aces stack \<and> non_ace_sum stack \<le> 10 \<and>
        12 \<le> non_ace_sum stack + num_aces stack \<and> non_ace_sum stack + num_aces stack \<le> 21)"
proof -
  let ?n = "num_aces stack" and ?s = "non_ace_sum stack"
  note n0 = num_aces_nonneg [of stack] and s0 = non_ace_sum_nonneg [of stack]
  show ?thesis
  proof (cases "1 \<le> ?n \<and> ?s \<le> 10")
    case high: True
    then have t: "calculate_stack_sum stack = ?s + ?n + 10" by (simp add: stack_sum_closed)
    consider "?s + ?n \<le> 11" | "11 < ?s + ?n" "?s + ?n \<le> 21" | "21 < ?s + ?n" by linarith
    then show ?thesis
    proof cases
      case 1
      with high optimal_when_one_high_fits [of stack] t show ?thesis by simp
    next
      case 2
      with not_optimal_when_overshooting [of stack] t high s0 show ?thesis by simp
    next
      case 3
      with optimal_when_all_bust [of stack "?s + ?n + 10"] one_high_total [of stack] t high
      show ?thesis by simp
    qed
  next
    case low: False
    then have t: "calculate_stack_sum stack = ?s + ?n" by (simp add: stack_sum_closed)
    from low n0 have "?n = 0 \<or> 10 < ?s" by linarith
    from optimal_when_all_low [OF this] t low show ?thesis by auto
  qed
qed

text \<open>
  C1.  The evaluation is not always the best total.  For four Aces and an 8 the
  sixteen ways of counting the Aces give the totals 12, 22, 32, 42 and 52, so the best
  total not above 21 is 12, and the hand evaluates to 22.  Two Aces and a King can be
  counted as 12 and evaluate to 22.  Two Aces alone evaluate to 12.
\<close>

theorem greedy_ace_sum_overshoots:
  "calculate_stack_sum [\<lparr>suit = ''Spades'', number = 1\<rparr>, \<lparr>suit = ''Hearts'', number = 1\<rparr>,
                        \<lparr>suit = ''Clubs'', number = 1\<rparr>, \<lparr>suit = ''Diamonds'', number = 1\<rparr>,
                        \<lparr>suit = ''Spades'', number = 8\<rparr>] = 22 \<and>
   hand_totals [\<lparr>suit = ''Spades'', number = 1\<rparr>, \<lparr>suit = ''Hearts'', number = 1\<rparr>,
                \<lparr>suit = ''Clubs'', number = 1\<rparr>, \<lparr>suit = ''Diamonds'', number = 1\<rparr>,
                \<lparr>suit = ''Spades'', number = 8\<rparr>]
     = [12, 22, 22, 32, 22, 32, 32, 42, 22, 32, 32, 42, 32, 42, 42, 52] \<and>
   calculate_stack_sum [\<lparr>suit = ''Spades'', number = 1\<rparr>, \<lparr>suit = ''Hearts'', number = 1\<rparr>,
                        \<lparr>suit = ''Clubs'', number = 13\<rparr>] = 22 \<and>
   hand_totals [\<lparr>suit = ''Spades'', number = 1\<rparr>, \<lparr>suit = ''Hearts'', number = 1\<rparr>,
                \<lparr>suit = ''Clubs'', number = 13\<rparr>] = [12, 22, 22, 32] \<and>
   calculate_stack_sum [\<lparr>suit = ''Spades'', number = 1\<rparr>, \<lparr>suit = ''Hearts'', number = 1\<rparr>] = 12"
  by code_simp

section \<open>The outcome of a round\<close>

lemma compute_winner_rules: "compute_winner d p = first_match resolve_rules d p"
  by (simp add: compute_winner_def resolve_rules_def WINNING_SUM_def)

text \<open>
  C2.  \<^verbatim>\<open>_compute_winner\<close> is the first-match reading of the seven rules, with \<open>NONE\<close> for
  a push.  Rule by rule, under the condition that lets the rule be reached: both sums 21
  is a push; the dealer alone at 21 wins; the dealer below 21 and above the player wins;
  a player above 21 loses whatever the dealer holds; a player at 21 wins unless the
  dealer is at 21; a player below 21 and above the dealer wins; every remaining pair
  (none of the six conditions holds: the player is below 21 and either equal to the
  dealer or facing a dealer above 21) is a push.  The five sample pairs give the stated outcomes.
\<close>

theorem resolve_first_match:
  "compute_winner d p = first_match resolve_rules d p \<and>
   (d = 21 \<and> p = 21 \<longrightarrow> compute_winner d p = ''NONE'') \<and>
   (d = 21 \<and> p \<noteq> 21 \<longrightarrow> compute_winner d p = ''DEALER'') \<and>
   (d < 21 \<and> p < d \<longrightarrow> compute_winner d p = ''DEALER'') \<and>
   (21 < p \<longrightarrow> compute_winner d p = ''DEALER'') \<and>
   (p = 21 \<and> d \<noteq> 21 \<longrightarrow> compute_winner d p = ''PLAYER'') \<and>
   (d < p \<and> p < 21 \<longrightarrow> compute_winner d p = ''PLAYER'') \<and>
   (\<not> (d = 21 \<and> p = 21) \<and> d \<noteq> 21 \<and> \<not> (d < 21 \<and> p < d) \<and> \<not> 21 < p \<and> p \<noteq> 21 \<and>
      \<not> (d < p \<and> p < 21) \<longrightarrow> compute_winner d p = ''NONE'') \<and>
   (p \<le> d \<and> p < 21 \<and> (d = p \<or> 21 < d) \<longrightarrow> compute_winner d p = ''NONE'') \<and>
   compute_winner 21 21 = ''NONE'' \<and>
   compute_winner 21 17 = ''DEALER'' \<and>
   compute_winner 18 22 = ''DEALER'' \<and>
   compute_winner 17 19 = ''PLAYER'' \<and>
   compute_winner 22 23 = ''DEALER''"
  by (intro conjI impI compute_winner_rules)
     (auto simp add: compute_winner_def WINNING_SUM_def)

theorem resolve_first_match_witness:
  "compute_winner 21 21 = ''NONE'' \<and>
   compute_winner 21 30 = ''DEALER'' \<and>
   compute_winner 20 12 = ''DEALER'' \<and>
   compute_winner 25 26 = ''DEALER'' \<and>
   compute_winner 25 21 = ''PLAYER'' \<and>
   compute_winner 15 16 = ''PLAYER'' \<and>
   compute_winner 19 19 = ''NONE'' \<and>
   compute_winner 24 20 = ''NONE''"
proof -
  have "compute_winner 21 21 = ''NONE''" using resolve_first_match [of 21 21] by (simp add: resolve_rules_def)
  moreover have "compute_winner 21 30 = ''DEALER''" using resolve_first_match [of 21 30] by (simp add: resolve_rules_def)
  moreover have "compute_winner 20 12 = ''DEALER''" using resolve_first_match [of 20 12] by (simp add: resolve_rules_def)
  moreover have "compute_winner 25 26 = ''DEALER''" using resolve_first_match [of 25 26] by (simp add: resolve_rules_def)
  moreover have "compute_winner 25 21 = ''PLAYER''" using resolve_first_match [of 25 21] by (simp add: resolve_rules_def)
  moreover have "compute_winner 15 16 = ''PLAYER''" using resolve_first_match [of 15 16] by (simp add: resolve_rules_def)
  moreover have "compute_winner 19 19 = ''NONE''" using resolve_first_match [of 19 19] by (simp add: resolve_rules_def)
  moreover have "compute_winner 24 20 = ''NONE''" using resolve_first_match [of 24 20] by (simp add: resolve_rules_def)
  ultimately show ?thesis by simp
qed

section \<open>Drawing from the deck\<close>

lemma draw_card_empty:
  "card_stack self = [] \<Longrightarrow> draw_card self = (Inl (IndexError ''pop from empty list''), self)"
  by (simp add: draw_card_def)

lemma draw_card_nonempty:
  "card_stack self \<noteq> [] \<Longrightarrow>
   draw_card self = (Inr (last (card_stack self)), self\<lparr>card_stack := butlast (card_stack self)\<rparr>)"
  by (simp add: draw_card_def)

lemma mset_butlast_last: "xs \<noteq> [] \<Longrightarrow> add_mset (last xs) (mset (butlast xs)) = mset xs"
  by (induction xs) auto

text \<open>
  C7.  On a deck that is not empty \<^verbatim>\<open>_draw_card\<close> returns the last card of the list and
  leaves the deck one card shorter, the rest in place; so the card appended last is the
  card drawn.  On an empty deck it raises (the \<^verbatim>\<open>IndexError\<close> of \<^verbatim>\<open>list.pop\<close>) and the
  object is unchanged.
\<close>

theorem draw_card_pop:
  "(card_stack self \<noteq> [] \<longrightarrow>
      draw_card self = (Inr (last (card_stack self)), self\<lparr>card_stack := butlast (card_stack self)\<rparr>) \<and>
      Suc (length (card_stack (snd (draw_card self)))) = length (card_stack self) \<and>
      card_stack (snd (draw_card self)) @ [last (card_stack self)] = card_stack self) \<and>
   draw_card (self\<lparr>card_stack := deck @ [c]\<rparr>) = (Inr c, self\<lparr>card_stack := deck\<rparr>) \<and>
   (card_stack self = [] \<longrightarrow>
      draw_card self = (Inl (IndexError ''pop from empty list''), self))"
  by (simp add: draw_card_def)

theorem draw_card_pop_witness:
  "draw_card \<lparr>num_decks = 1, num_players = 1,
      card_stack = [\<lparr>suit = ''Clubs'', number = 4\<rparr>, \<lparr>suit = ''Hearts'', number = 5\<rparr>],
      dealer_stack = [], player_stacks = [[]], player_dones = [False], current_turn = 0\<rparr>
   = (Inr \<lparr>suit = ''Hearts'', number = 5\<rparr>,
      \<lparr>num_decks = 1, num_players = 1, card_stack = [\<lparr>suit = ''Clubs'', number = 4\<rparr>],
       dealer_stack = [], player_stacks = [[]], player_dones = [False], current_turn = 0\<rparr>) \<and>
   draw_card \<lparr>num_decks = 0, num_players = 1, card_stack = [],
      dealer_stack = [], player_stacks = [[]], player_dones = [False], current_turn = 0\<rparr>
   = (Inl (IndexError ''pop from empty list''),
      \<lparr>num_decks = 0, num_players = 1, card_stack = [],
       dealer_stack = [], player_stacks = [[]], player_dones = [False], current_turn = 0\<rparr>)"
  using draw_card_pop [of "\<lparr>num_decks = 1, num_players = 1,
      card_stack = [\<lparr>suit = ''Clubs'', number = 4\<rparr>, \<lparr>suit = ''Hearts'', number = 5\<rparr>],
      dealer_stack = [], player_stacks = [[]], player_dones = [False], current_turn = 0\<rparr>"]
    draw_card_pop [of "\<lparr>num_decks = 0, num_players = 1, card_stack = [],
      dealer_stack = [], player_stacks = [[]], player_dones = [False], current_turn = 0\<rparr>"]
  by simp

section \<open>The dealer\<close>

text \<open>
  C4, as the code has it.  With a dealer hand evaluating below 17 and a card left in
  the deck, \<^verbatim>\<open>dealer_draw\<close> takes the last card of the deck, appends it to the dealer's
  hand and returns \<open>False\<close>; below 17 with no card left, the exception of the draw comes
  out and nothing changes; with the hand at 17 or above it returns \<open>True\<close> and changes
  nothing.
\<close>

theorem dealer_draw_threshold:
  "(calculate_stack_sum (dealer_stack self) < 17 \<and> card_stack self \<noteq> [] \<longrightarrow>
      dealer_draw silent self =
        (Inr False, self\<lparr>card_stack := butlast (card_stack self),
                          dealer_stack := dealer_stack self @ [last (card_stack self)]\<rparr>)) \<and>
   (calculate_stack_sum (dealer_stack self) < 17 \<and> card_stack self = [] \<longrightarrow>
      dealer_draw silent self = (Inl (IndexError ''pop from empty list''), self)) \<and>
   (17 \<le> calculate_stack_sum (dealer_stack self) \<longrightarrow>
      dealer_draw silent self = (Inr True, self))"
  by (simp add: dealer_draw_def draw_card_def)

theorem dealer_draw_threshold_witness:
  "fst (dealer_draw False (projr (Blackjack_init rev 1 1))) = Inr False \<and>
   dealer_stack (snd (dealer_draw False (projr (Blackjack_init rev 1 1))))
     = [\<lparr>suit = ''Spades'', number = 1\<rparr>] \<and>
   length (card_stack (snd (dealer_draw False (projr (Blackjack_init rev 1 1))))) = 51 \<and>
   dealer_draw False (projr (Blackjack_init rev 0 1))
     = (Inl (IndexError ''pop from empty list''), projr (Blackjack_init rev 0 1)) \<and>
   calculate_stack_sum [\<lparr>suit = ''Hearts'', number = 13\<rparr>, \<lparr>suit = ''Clubs'', number = 7\<rparr>] = 17 \<and>
   dealer_draw False ((projr (Blackjack_init rev 1 1))
       \<lparr>dealer_stack := [\<lparr>suit = ''Hearts'', number = 13\<rparr>, \<lparr>suit = ''Clubs'', number = 7\<rparr>]\<rparr>)
     = (Inr True, (projr (Blackjack_init rev 1 1))
       \<lparr>dealer_stack := [\<lparr>suit = ''Hearts'', number = 13\<rparr>, \<lparr>suit = ''Clubs'', number = 7\<rparr>]\<rparr>)"
proof -
  let ?g = "projr (Blackjack_init rev 1 1)"
  let ?e = "projr (Blackjack_init rev 0 1)"
  let ?s = "?g\<lparr>dealer_stack := [\<lparr>suit = ''Hearts'', number = 13\<rparr>, \<lparr>suit = ''Clubs'', number = 7\<rparr>]\<rparr>"
  have hit: "calculate_stack_sum (dealer_stack ?g) < 17 \<and> card_stack ?g \<noteq> []"
    by code_simp
  have dry: "calculate_stack_sum (dealer_stack ?e) < 17 \<and> card_stack ?e = []"
    by code_simp
  have seventeen: "calculate_stack_sum [\<lparr>suit = ''Hearts'', number = 13\<rparr>, \<lparr>suit = ''Clubs'', number = 7\<rparr>] = 17"
    by code_simp
  then have stand: "17 \<le> calculate_stack_sum (dealer_stack ?s)" by simp
  have a: "dealer_draw False ?g =
      (Inr False, ?g\<lparr>card_stack := butlast (card_stack ?g),
                       dealer_stack := dealer_stack ?g @ [last (card_stack ?g)]\<rparr>)"
    using dealer_draw_threshold [of ?g False] hit by blast
  have b: "dealer_draw False ?e = (Inl (IndexError ''pop from empty list''), ?e)"
    using dealer_draw_threshold [of ?e False] dry by blast
  have c: "dealer_draw False ?s = (Inr True, ?s)"
    using dealer_draw_threshold [of ?s False] stand by blast
  have d: "dealer_stack ?g @ [last (card_stack ?g)] = [\<lparr>suit = ''Spades'', number = 1\<rparr>] \<and>
           length (butlast (card_stack ?g)) = 51"
    by code_simp
  show ?thesis unfolding a b c using d seventeen by simp
qed

text \<open>
  C4, as stated, fails on an empty deck.  One deck dealt to 25 players is used up by
  the initial deal, which leaves the dealer at 13; the dealer's step then raises, draws
  nothing and returns nothing.  So does the first step of the dealer in a game built
  with no deck.
\<close>

theorem dealer_draw_empty_deck_counterexample:
  "fst (initial_deal (projr (Blackjack_init rev 1 25))) = Inr () \<and>
   card_stack (snd (initial_deal (projr (Blackjack_init rev 1 25)))) = [] \<and>
   dealer_stack (snd (initial_deal (projr (Blackjack_init rev 1 25))))
     = [\<lparr>suit = ''Spades'', number = 1\<rparr>, \<lparr>suit = ''Spades'', number = 2\<rparr>] \<and>
   calculate_stack_sum (dealer_stack (snd (initial_deal (projr (Blackjack_init rev 1 25))))) = 13 \<and>
   dealer_draw False (snd (initial_deal (projr (Blackjack_init rev 1 25))))
     = (Inl (IndexError ''pop from empty list''),
        snd (initial_deal (projr (Blackjack_init rev 1 25)))) \<and>
   dealer_draw False (projr (Blackjack_init rev 0 1))
     = (Inl (IndexError ''pop from empty list''), projr (Blackjack_init rev 0 1))"
proof -
  let ?s = "snd (initial_deal (projr (Blackjack_init rev 1 25)))"
  have run: "(case initial_deal (projr (Blackjack_init rev 1 25)) of
                (r, s) \<Rightarrow> (r, card_stack s, dealer_stack s))
             = (Inr (), [], [\<lparr>suit = ''Spades'', number = 1\<rparr>, \<lparr>suit = ''Spades'', number = 2\<rparr>])"
    by code_simp
  then have a: "fst (initial_deal (projr (Blackjack_init rev 1 25))) = Inr ()"
    and b: "card_stack ?s = []"
    and c: "dealer_stack ?s = [\<lparr>suit = ''Spades'', number = 1\<rparr>, \<lparr>suit = ''Spades'', number = 2\<rparr>]"
    by (simp_all add: case_prod_beta)
  have d: "calculate_stack_sum [\<lparr>suit = ''Spades'', number = 1\<rparr>, \<lparr>suit = ''Spades'', number = 2\<rparr>] = 13"
    by code_simp
  have e: "dealer_draw False ?s = (Inl (IndexError ''pop from empty list''), ?s)"
    using b c d by (simp add: dealer_draw_def draw_card_def)
  have f: "dealer_draw False (projr (Blackjack_init rev 0 1))
     = (Inl (IndexError ''pop from empty list''), projr (Blackjack_init rev 0 1))"
    by code_simp
  show ?thesis using a b c d e f by simp
qed

section \<open>The constructor\<close>

lemma py_range_length: "length (py_range n) = nat n"
  by (simp add: py_range_def)

lemma map_const_py_range: "map (\<lambda>_. c) (py_range n) = replicate (nat n) c"
  by (simp add: map_replicate_const py_range_length)

lemma create_stack_Inr:
  "create_stack shuffle n_decks =
     Inr (shuffle (concat (replicate (nat n_decks) standard_deck)))"
  by (simp add: create_stack_def standard_deck_def map_const_py_range
      LOWEST_CARD_def HIGHEST_CARD_def Let_def)

lemma Blackjack_init_Inr:
  "Blackjack_init shuffle n_decks n_players =
     Inr \<lparr>num_decks = n_decks, num_players = n_players,
          card_stack = shuffle (concat (replicate (nat n_decks) standard_deck)),
          dealer_stack = [],
          player_stacks = replicate (nat n_players) [],
          player_dones = replicate (nat n_players) False,
          current_turn = 0\<rparr>"
  by (simp add: Blackjack_init_def create_stack_Inr map_const_py_range)

text \<open>
  C6, as the code has it.  The constructor never fails: for any two integers it returns
  a game whose deck is the shuffled list of \<open>max n_decks 0\<close> standard decks, with an
  empty dealer hand and \<open>max n_players 0\<close> empty player hands.  Building the deck never
  fails either; for \<open>n_decks < 1\<close> the deck is the shuffled empty list, and for
  \<open>n_players < 1\<close> there is no player.
\<close>

theorem init_never_fails:
  "Blackjack_init shuffle n_decks n_players =
     Inr \<lparr>num_decks = n_decks, num_players = n_players,
          card_stack = shuffle (concat (replicate (nat n_decks) standard_deck)),
          dealer_stack = [],
          player_stacks = replicate (nat n_players) [],
          player_dones = replicate (nat n_players) False,
          current_turn = 0\<rparr> \<and>
   create_stack shuffle n_decks = Inr (shuffle (concat (replicate (nat n_decks) standard_deck))) \<and>
   (n_decks < 1 \<longrightarrow> create_stack shuffle n_decks = Inr (shuffle [])) \<and>
   (n_players < 1 \<longrightarrow>
      player_stacks (projr (Blackjack_init shuffle n_decks n_players)) = [] \<and>
      player_dones (projr (Blackjack_init shuffle n_decks n_players)) = [])"
  by (simp add: Blackjack_init_Inr create_stack_Inr)

theorem init_never_fails_witness:
  "(0::int) < 1 \<and> (-2::int) < 1 \<and>
   Blackjack_init rev 0 (-2) =
     Inr \<lparr>num_decks = 0, num_players = -2, card_stack = [], dealer_stack = [],
          player_stacks = [], player_dones = [], current_turn = 0\<rparr> \<and>
   create_stack rev 0 = Inr []"
  using init_never_fails [of rev 0 "-2"] by simp

text \<open>
  C6, as stated, fails: with no deck, or with no player, a game is created all the same.
\<close>

theorem init_unchecked_counterexample:
  "Blackjack_init (\<lambda>xs. xs) 0 0 =
     Inr \<lparr>num_decks = 0, num_players = 0, card_stack = [], dealer_stack = [],
          player_stacks = [], player_dones = [], current_turn = 0\<rparr> \<and>
   Blackjack_init (\<lambda>xs. xs) 0 1 =
     Inr \<lparr>num_decks = 0, num_players = 1, card_stack = [], dealer_stack = [],
          player_stacks = [[]], player_dones = [False], current_turn = 0\<rparr> \<and>
   \<not> isl (Blackjack_init (\<lambda>xs. xs) 1 0) \<and>
   length (card_stack (projr (Blackjack_init (\<lambda>xs. xs) 1 0))) = 52 \<and>
   player_stacks (projr (Blackjack_init (\<lambda>xs. xs) 1 0)) = []"
  by code_simp

section \<open>A player's hit\<close>

lemma player_draw_empty:
  "card_stack self = [] \<Longrightarrow>
   player_draw player_idx self = (Inl (IndexError ''pop from empty list''), self)"
  by (simp add: player_draw_def draw_card_def)

lemma player_draw_out_of_range:
  "card_stack self \<noteq> [] \<Longrightarrow>
   player_idx < - int (length (player_stacks self)) \<or> int (length (player_stacks self)) \<le> player_idx \<Longrightarrow>
   player_draw player_idx self =
     (Inl (IndexError ''list index out of range''), self\<lparr>card_stack := butlast (card_stack self)\<rparr>)"
  by (auto simp add: player_draw_def draw_card_def Let_def)

lemma player_draw_in_range:
  "card_stack self \<noteq> [] \<Longrightarrow>
   - int (length (player_stacks self)) \<le> player_idx \<Longrightarrow>
   player_idx < int (length (player_stacks self)) \<Longrightarrow>
   player_draw player_idx self =
     (let k = nat (if player_idx < 0 then player_idx + int (length (player_stacks self))
                   else player_idx)
      in (Inr (last (card_stack self)),
          self\<lparr>card_stack := butlast (card_stack self),
                player_stacks := (player_stacks self)
                  [k := player_stacks self ! k @ [last (card_stack self)]]\<rparr>))"
  by (auto simp add: player_draw_def draw_card_def Let_def)

lemma player_draw_dones:
  "player_draw player_idx (self\<lparr>player_dones := ds\<rparr>) =
     (fst (player_draw player_idx self), (snd (player_draw player_idx self))\<lparr>player_dones := ds\<rparr>)"
  by (simp add: player_draw_def draw_card_def Let_def)

text \<open>
  C5, as the code has it.  \<^verbatim>\<open>player_draw\<close> raises exactly when the deck is empty or the
  index lies outside \<open>-n, \<dots>, n - 1\<close> for \<open>n\<close> hands, and then no hand is changed.
  Otherwise it returns the last card of the deck, having appended it to the hand at
  that index (a negative index counts from the end).  The done flags play no part: the
  result is the same whatever they are, and they are left as they were.
\<close>

theorem player_draw_behaviour:
  "(card_stack self = [] \<or> player_idx < - int (length (player_stacks self)) \<or>
      int (length (player_stacks self)) \<le> player_idx \<longrightarrow>
      isl (fst (player_draw player_idx self)) \<and>
      player_stacks (snd (player_draw player_idx self)) = player_stacks self) \<and>
   (card_stack self \<noteq> [] \<and> - int (length (player_stacks self)) \<le> player_idx \<and>
      player_idx < int (length (player_stacks self)) \<longrightarrow>
      player_draw player_idx self =
        (let k = nat (if player_idx < 0 then player_idx + int (length (player_stacks self))
                      else player_idx)
         in (Inr (last (card_stack self)),
             self\<lparr>card_stack := butlast (card_stack self),
                   player_stacks := (player_stacks self)
                     [k := player_stacks self ! k @ [last (card_stack self)]]\<rparr>))) \<and>
   player_draw player_idx (self\<lparr>player_dones := ds\<rparr>) =
     (fst (player_draw player_idx self), (snd (player_draw player_idx self))\<lparr>player_dones := ds\<rparr>)"
proof (intro conjI impI)
  assume "card_stack self = [] \<or> player_idx < - int (length (player_stacks self)) \<or>
      int (length (player_stacks self)) \<le> player_idx"
  then have "isl (fst (player_draw player_idx self)) \<and>
      player_stacks (snd (player_draw player_idx self)) = player_stacks self"
    using player_draw_empty [of self player_idx] player_draw_out_of_range [of self player_idx]
    by (cases "card_stack self = []") auto
  then show "isl (fst (player_draw player_idx self))"
    and "player_stacks (snd (player_draw player_idx self)) = player_stacks self" by simp_all
next
  assume "card_stack self \<noteq> [] \<and> - int (length (player_stacks self)) \<le> player_idx \<and>
      player_idx < int (length (player_stacks self))"
  then show "player_draw player_idx self =
        (let k = nat (if player_idx < 0 then player_idx + int (length (player_stacks self))
                      else player_idx)
         in (Inr (last (card_stack self)),
             self\<lparr>card_stack := butlast (card_stack self),
                   player_stacks := (player_stacks self)
                     [k := player_stacks self ! k @ [last (card_stack self)]]\<rparr>))"
    using player_draw_in_range [of self player_idx] by simp
next
  show "player_draw player_idx (self\<lparr>player_dones := ds\<rparr>) =
     (fst (player_draw player_idx self), (snd (player_draw player_idx self))\<lparr>player_dones := ds\<rparr>)"
    by (rule player_draw_dones)
qed

theorem player_draw_behaviour_witness:
  "player_draw (-1) \<lparr>num_decks = 1, num_players = 2,
      card_stack = [\<lparr>suit = ''Clubs'', number = 4\<rparr>, \<lparr>suit = ''Hearts'', number = 5\<rparr>],
      dealer_stack = [], player_stacks = [[], [\<lparr>suit = ''Spades'', number = 2\<rparr>]],
      player_dones = [False, True], current_turn = 0\<rparr>
   = (Inr \<lparr>suit = ''Hearts'', number = 5\<rparr>,
      \<lparr>num_decks = 1, num_players = 2, card_stack = [\<lparr>suit = ''Clubs'', number = 4\<rparr>],
       dealer_stack = [],
       player_stacks = [[], [\<lparr>suit = ''Spades'', number = 2\<rparr>, \<lparr>suit = ''Hearts'', number = 5\<rparr>]],
       player_dones = [False, True], current_turn = 0\<rparr>) \<and>
   isl (fst (player_draw 2 \<lparr>num_decks = 1, num_players = 2,
      card_stack = [\<lparr>suit = ''Clubs'', number = 4\<rparr>, \<lparr>suit = ''Hearts'', number = 5\<rparr>],
      dealer_stack = [], player_stacks = [[], [\<lparr>suit = ''Spades'', number = 2\<rparr>]],
      player_dones = [False, True], current_turn = 0\<rparr>)) \<and>
   player_stacks (snd (player_draw 2 \<lparr>num_decks = 1, num_players = 2,
      card_stack = [\<lparr>suit = ''Clubs'', number = 4\<rparr>, \<lparr>suit = ''Hearts'', number = 5\<rparr>],
      dealer_stack = [], player_stacks = [[], [\<lparr>suit = ''Spades'', number = 2\<rparr>]],
      player_dones = [False, True], current_turn = 0\<rparr>))
   = [[], [\<lparr>suit = ''Spades'', number = 2\<rparr>]]"
proof -
  let ?g = "\<lparr>num_decks = 1, num_players = 2,
      card_stack = [\<lparr>suit = ''Clubs'', number = 4\<rparr>, \<lparr>suit = ''Hearts'', number = 5\<rparr>],
      dealer_stack = [], player_stacks = [[], [\<lparr>suit = ''Spades'', number = 2\<rparr>]],
      player_dones = [False, True], current_turn = 0\<rparr>"
  have inside: "card_stack ?g \<noteq> [] \<and> - int (length (player_stacks ?g)) \<le> -1 \<and>
      -1 < int (length (player_stacks ?g))"
    by simp
  have outside: "card_stack ?g = [] \<or> 2 < - int (length (player_stacks ?g)) \<or>
      int (length (player_stacks ?g)) \<le> 2"
    by simp
  have a: "player_draw (-1) ?g =
        (let k = nat (if (-1::int) < 0 then -1 + int (length (player_stacks ?g)) else -1)
         in (Inr (last (card_stack ?g)),
             ?g\<lparr>card_stack := butlast (card_stack ?g),
                  player_stacks := (player_stacks ?g)
                    [k := player_stacks ?g ! k @ [last (card_stack ?g)]]\<rparr>))"
    using player_draw_behaviour [of ?g "-1"] inside by blast
  have b: "isl (fst (player_draw 2 ?g)) \<and>
      player_stacks (snd (player_draw 2 ?g)) = player_stacks ?g"
    using player_draw_behaviour [of ?g 2] outside by blast
  show ?thesis unfolding a using b by simp
qed

text \<open>
  C5, as stated, fails: a player marked done is dealt a card, and so is the player
  at index \<open>-1\<close>.
\<close>

theorem player_draw_done_counterexample:
  "player_dones \<lparr>num_decks = 1, num_players = 2,
      card_stack = [\<lparr>suit = ''Clubs'', number = 4\<rparr>, \<lparr>suit = ''Hearts'', number = 5\<rparr>],
      dealer_stack = [\<lparr>suit = ''Spades'', number = 13\<rparr>, \<lparr>suit = ''Spades'', number = 7\<rparr>],
      player_stacks = [[\<lparr>suit = ''Hearts'', number = 10\<rparr>, \<lparr>suit = ''Clubs'', number = 9\<rparr>],
                       [\<lparr>suit = ''Diamonds'', number = 2\<rparr>, \<lparr>suit = ''Diamonds'', number = 3\<rparr>]],
      player_dones = [True, False], current_turn = 1\<rparr> ! 0 \<and>
   player_draw 0 \<lparr>num_decks = 1, num_players = 2,
      card_stack = [\<lparr>suit = ''Clubs'', number = 4\<rparr>, \<lparr>suit = ''Hearts'', number = 5\<rparr>],
      dealer_stack = [\<lparr>suit = ''Spades'', number = 13\<rparr>, \<lparr>suit = ''Spades'', number = 7\<rparr>],
      player_stacks = [[\<lparr>suit = ''Hearts'', number = 10\<rparr>, \<lparr>suit = ''Clubs'', number = 9\<rparr>],
                       [\<lparr>suit = ''Diamonds'', number = 2\<rparr>, \<lparr>suit = ''Diamonds'', number = 3\<rparr>]],
      player_dones = [True, False], current_turn = 1\<rparr>
   = (Inr \<lparr>suit = ''Hearts'', number = 5\<rparr>,
      \<lparr>num_decks = 1, num_players = 2,
       card_stack = [\<lparr>suit = ''Clubs'', number = 4\<rparr>],
       dealer_stack = [\<lparr>suit = ''Spades'', number = 13\<rparr>, \<lparr>suit = ''Spades'', number = 7\<rparr>],
       player_stacks = [[\<lparr>suit = ''Hearts'', number = 10\<rparr>, \<lparr>suit = ''Clubs'', number = 9\<rparr>,
                         \<lparr>suit = ''Hearts'', number = 5\<rparr>],
                        [\<lparr>suit = ''Diamonds'', number = 2\<rparr>, \<lparr>suit = ''Diamonds'', number = 3\<rparr>]],
       player_dones = [True, False], current_turn = 1\<rparr>) \<and>
   player_draw (-1) \<lparr>num_decks = 1, num_players = 2,
      card_stack = [\<lparr>suit = ''Clubs'', number = 4\<rparr>, \<lparr>suit = ''Hearts'', number = 5\<rparr>],
      dealer_stack = [\<lparr>suit = ''Spades'', number = 13\<rparr>, \<lparr>suit = ''Spades'', number = 7\<rparr>],
      player_stacks = [[\<lparr>suit = ''Hearts'', number = 10\<rparr>, \<lparr>suit = ''Clubs'', number = 9\<rparr>],
                       [\<lparr>suit = ''Diamonds'', number = 2\<rparr>, \<lparr>suit = ''Diamonds'', number = 3\<rparr>]],
      player_dones = [True, False], current_turn = 1\<rparr>
   = (Inr \<lparr>suit = ''Hearts'', number = 5\<rparr>,
      \<lparr>num_decks = 1, num_players = 2,
       card_stack = [\<lparr>suit = ''Clubs'', number = 4\<rparr>],
       dealer_stack = [\<lparr>suit = ''Spades'', number = 13\<rparr>, \<lparr>suit = ''Spades'', number = 7\<rparr>],
       player_stacks = [[\<lparr>suit = ''Hearts'', number = 10\<rparr>, \<lparr>suit = ''Clubs'', number = 9\<rparr>],
                        [\<lparr>suit = ''Diamonds'', number = 2\<rparr>, \<lparr>suit = ''Diamonds'', number = 3\<rparr>,
                         \<lparr>suit = ''Hearts'', number = 5\<rparr>]],
       player_dones = [True, False], current_turn = 1\<rparr>)"
  by (simp add: player_draw_def draw_card_def)

section \<open>The cards of a game\<close>

lemma standard_deck_length: "length standard_deck = 52"
  by code_simp

lemma standard_deck_distinct: "distinct standard_deck"
  by code_simp

lemma standard_deck_members:
  "c \<in> set standard_deck \<longleftrightarrow> suit c \<in> set SUITS \<and> 1 \<le> number c \<and> number c \<le> 13"
proof (cases c)
  case (fields s n)
  have "c \<in> set standard_deck \<longleftrightarrow> (\<exists>s' \<in> set SUITS. \<exists>r \<in> {1..13}. c = \<lparr>suit = s', number = r\<rparr>)"
    unfolding standard_deck_def by auto
  also have "\<dots> \<longleftrightarrow> s \<in> set SUITS \<and> 1 \<le> n \<and> n \<le> 13"
    unfolding fields by auto
  finally show ?thesis unfolding fields by simp
qed

lemma mset_concat_replicate: "mset (concat (replicate n xs)) = repeat_mset n (mset xs)"
  by (induction n) simp_all

lemma mset_concat_update:
  "k < length xss \<Longrightarrow> mset (concat (xss[k := xss ! k @ [c]])) = add_mset c (mset (concat xss))"
proof (induction xss arbitrary: k)
  case Nil
  then show ?case by simp
next
  case (Cons xs xss)
  then show ?case by (cases k) simp_all
qed

lemma create_stack_cards:
  assumes "\<forall>xs. mset (shuffle xs) = mset xs"
  shows "mset (projr (create_stack shuffle n)) = repeat_mset (nat n) (mset standard_deck)"
    and "length (projr (create_stack shuffle n)) = 52 * nat n"
proof -
  show m: "mset (projr (create_stack shuffle n)) = repeat_mset (nat n) (mset standard_deck)"
    using assms by (simp add: create_stack_Inr mset_concat_replicate)
  have "size (mset (projr (create_stack shuffle n))) = nat n * 52"
    unfolding m by (simp add: standard_deck_length)
  then show "length (projr (create_stack shuffle n)) = 52 * nat n" by simp
qed

lemma dealer_draw_cards: "cards_in_game (snd (dealer_draw silent g)) = cards_in_game g"
  by (simp add: dealer_draw_def draw_card_def cards_in_game_def Let_def mset_butlast_last)

lemma dealer_draw_players:
  "player_stacks (snd (dealer_draw silent g)) = player_stacks g \<and>
   num_players (snd (dealer_draw silent g)) = num_players g"
  by (simp add: dealer_draw_def draw_card_def Let_def)

lemma player_draw_players:
  "length (player_stacks (snd (player_draw i g))) = length (player_stacks g) \<and>
   num_players (snd (player_draw i g)) = num_players g"
  by (simp add: player_draw_def draw_card_def Let_def)

lemma player_draw_cards:
  assumes "fst (player_draw i g) = Inr c"
  shows "cards_in_game (snd (player_draw i g)) = cards_in_game g"
proof -
  from assms have ne: "card_stack g \<noteq> []"
    using player_draw_empty [of g i] by auto
  from assms ne have r: "- int (length (player_stacks g)) \<le> i \<and> i < int (length (player_stacks g))"
    using player_draw_out_of_range [of g i] by fastforce
  then have k: "nat (if i < 0 then i + int (length (player_stacks g)) else i)
                  < length (player_stacks g)" by auto
  show ?thesis
    using ne r k
    by (simp add: player_draw_in_range Let_def cards_in_game_def mset_concat_update
        mset_butlast_last)
qed

lemma player_draw_cards_in_range:
  assumes "0 \<le> i" "i < int (length (player_stacks g))"
  shows "cards_in_game (snd (player_draw i g)) = cards_in_game g"
proof (cases "card_stack g = []")
  case True
  then show ?thesis by (simp add: player_draw_empty)
next
  case False
  with assms have "fst (player_draw i g) = Inr (last (card_stack g))"
    by (simp add: player_draw_in_range Let_def)
  then show ?thesis by (rule player_draw_cards)
qed

lemma player_draw_never_adds: "cards_in_game (snd (player_draw i g)) \<subseteq># cards_in_game g"
proof (cases "fst (player_draw i g)")
  case (Inr c)
  then show ?thesis by (simp add: player_draw_cards)
next
  case (Inl e)
  show ?thesis
  proof (cases "card_stack g = []")
    case True
    then show ?thesis by (simp add: player_draw_empty)
  next
    case False
    have player_idx_bad: "i < - int (length (player_stacks g)) \<or> int (length (player_stacks g)) \<le> i"
    proof (rule ccontr)
      assume "\<not> ?thesis"
      with False have "fst (player_draw i g) = Inr (last (card_stack g))"
        by (simp add: player_draw_in_range Let_def)
      with Inl show False by simp
    qed
    have "mset (butlast (card_stack g))
            \<subseteq># add_mset (last (card_stack g)) (mset (butlast (card_stack g)))"
      by simp
    then have "mset (butlast (card_stack g)) \<subseteq># mset (card_stack g)"
      by (simp only: mset_butlast_last [OF False])
    with False player_idx_bad show ?thesis
      by (simp add: player_draw_out_of_range cards_in_game_def)
  qed
qed


lemma for_each_invariant:
  assumes step: "\<And>x s. x \<in> set xs \<Longrightarrow> I s \<Longrightarrow> I (snd (body x s))"
    and start: "I s"
  shows "I (snd (for_each xs body s))"
  using assms
proof (induction xs arbitrary: s)
  case Nil
  then show ?case by simp
next
  case (Cons x xs)
  have here: "I (snd (body x s))" using Cons.prems by simp
  show ?case
  proof (cases "body x s")
    case (Pair r s')
    with here have s': "I s'" by simp
    show ?thesis
    proof (cases r)
      case (Inl e)
      with Pair s' show ?thesis by simp
    next
      case (Inr v)
      have "I (snd (for_each xs body s'))"
        using Cons.prems s' by (intro Cons.IH) simp_all
      with Pair Inr show ?thesis by simp
    qed
  qed
qed

lemma dealer_draw_table: "table_of M p g \<Longrightarrow> table_of M p (snd (dealer_draw silent g))"
  by (simp add: table_of_def dealer_draw_cards dealer_draw_players)

lemma player_draw_table:
  assumes "table_of M p g" "0 \<le> i" "i < p"
  shows "table_of M p (snd (player_draw i g))"
proof -
  from assms have "i < int (length (player_stacks g))" by (simp add: table_of_def)
  with assms(1,2) show ?thesis
    by (simp add: table_of_def player_draw_cards_in_range player_draw_players)
qed

lemma py_range_set: "x \<in> set (py_range n) \<Longrightarrow> 0 \<le> x \<and> x < n"
  by (simp add: py_range_def)

lemma initial_deal_table:
  assumes "table_of M p g"
  shows "table_of M p (snd (initial_deal g))"
proof -
  obtain r1 s1 where d1: "dealer_draw False g = (r1, s1)" by (cases "dealer_draw False g")
  obtain r2 s2 where d2: "dealer_draw True s1 = (r2, s2)" by (cases "dealer_draw True s1")
  have t1: "table_of M p s1" using dealer_draw_table [OF assms, of False] d1 by simp
  have t2: "table_of M p s2" using dealer_draw_table [OF t1, of True] d2 by simp
  have inner: "table_of M p (snd (for_each (py_range 2) (\<lambda>_. player_draw i) s))"
    if "i \<in> set (py_range p)" "table_of M p s" for i s
  proof (rule for_each_invariant [where I = "table_of M p"])
    show "table_of M p s" by (rule that(2))
  next
    fix x s'
    assume "table_of M p s'"
    then show "table_of M p (snd (player_draw i s'))"
      using py_range_set [OF that(1)] by (simp add: player_draw_table)
  qed
  have loop: "table_of M p (snd (for_each (py_range p)
                 (\<lambda>player_idx. for_each (py_range 2) (\<lambda>_. player_draw player_idx)) s2))"
  proof (rule for_each_invariant [where I = "table_of M p"])
    show "table_of M p s2" by (rule t2)
  next
    fix i s
    assume "i \<in> set (py_range p)" "table_of M p s"
    then show "table_of M p (snd (for_each (py_range 2) (\<lambda>_. player_draw i) s))"
      by (rule inner)
  qed
  have p2: "num_players s2 = p" using t2 by (simp add: table_of_def)
  show ?thesis
  proof (cases r1)
    case (Inl e)
    with d1 t1 show ?thesis by (simp add: initial_deal_def)
  next
    case r1: (Inr b1)
    show ?thesis
    proof (cases r2)
      case (Inl e)
      with d1 d2 r1 t2 show ?thesis by (simp add: initial_deal_def)
    next
      case (Inr b2)
      with d1 d2 r1 loop p2 show ?thesis by (simp add: initial_deal_def)
    qed
  qed
qed

lemma initial_deal_cards:
  assumes "length (player_stacks g) = nat (num_players g)"
  shows "cards_in_game (snd (initial_deal g)) = cards_in_game g"
proof -
  have "table_of (cards_in_game g) (num_players g) g" using assms by (simp add: table_of_def)
  from initial_deal_table [OF this] show ?thesis by (simp add: table_of_def)
qed

lemma game_state_table:
  assumes perm: "\<forall>xs. mset (shuffle xs) = mset xs"
    and reach: "game_state shuffle n_decks n_players g"
  shows "table_of (repeat_mset (nat n_decks) (mset standard_deck)) n_players g"
  using reach
proof (induction rule: game_state.induct)
  case (created g)
  then show ?case
    using perm by (auto simp add: Blackjack_init_Inr table_of_def cards_in_game_def
        mset_concat_replicate)
next
  case (dealt g)
  from dealt.IH show ?case by (rule initial_deal_table)
next
  case (player_hit g player_idx drawn_card g')
  then have "fst (player_draw player_idx g) = Inr drawn_card"
    and g': "g' = snd (player_draw player_idx g)" by simp_all
  from player_draw_cards [OF this(1)] player_draw_players [of player_idx g] player_hit.IH
  show ?case unfolding g' by (simp add: table_of_def)
next
  case (dealer_played g silent)
  from dealer_played.IH show ?case by (rule dealer_draw_table)
next
  case (turn_recorded g dones turn)
  then show ?case by (simp add: table_of_def cards_in_game_def)
qed


lemma draw_card_removes_one:
  "fst (draw_card g) = Inr c \<Longrightarrow> mset (card_stack g) = add_mset c (mset (card_stack (snd (draw_card g))))"
  by (cases "card_stack g = []") (auto simp add: draw_card_def mset_butlast_last)

lemma SUITS_four: "length SUITS = 4 \<and> distinct SUITS"
  by (simp add: SUITS_def)

text \<open>Dealing composes, and each step of the game only deals.\<close>

lemma deals_refl: "deals g g"
  by (simp add: deals_def list_all2_refl)

lemma deals_trans: "deals g g' \<Longrightarrow> deals g' g'' \<Longrightarrow> deals g g''"
  unfolding deals_def
  by (auto elim: prefix_order.trans intro: list_all2_trans [where ?P1.0 = prefix and ?P2.0 = prefix])

lemma list_all2_prefix_update:
  "k < length xss \<Longrightarrow> list_all2 prefix xss (xss[k := xss ! k @ ys])"
  by (simp add: list_all2_conv_all_nth nth_list_update)

lemma player_draw_moves:
  assumes "fst (player_draw i g) = Inr c"
  shows "card_stack g = card_stack (snd (player_draw i g)) @ [c] \<and>
         dealer_stack (snd (player_draw i g)) = dealer_stack g \<and>
         (\<exists>k < length (player_stacks g).
            player_stacks (snd (player_draw i g)) = (player_stacks g)[k := player_stacks g ! k @ [c]])"
proof -
  from assms have ne: "card_stack g \<noteq> []"
    using player_draw_empty [of g i] by auto
  from assms ne have r: "- int (length (player_stacks g)) \<le> i" "i < int (length (player_stacks g))"
    using player_draw_out_of_range [of g i] by fastforce+
  let ?k = "nat (if i < 0 then i + int (length (player_stacks g)) else i)"
  have k: "?k < length (player_stacks g)" using r by auto
  have eq: "player_draw i g =
      (Inr (last (card_stack g)),
       g\<lparr>card_stack := butlast (card_stack g),
          player_stacks := (player_stacks g)[?k := player_stacks g ! ?k @ [last (card_stack g)]]\<rparr>)"
    using player_draw_in_range [OF ne r] by (simp add: Let_def)
  with assms have c: "c = last (card_stack g)" by simp
  have "player_stacks (snd (player_draw i g)) = (player_stacks g)[?k := player_stacks g ! ?k @ [c]]"
    unfolding eq c by simp
  with k have "\<exists>k < length (player_stacks g).
      player_stacks (snd (player_draw i g)) = (player_stacks g)[k := player_stacks g ! k @ [c]]"
    by blast
  moreover have "card_stack g = card_stack (snd (player_draw i g)) @ [c]"
    unfolding eq c using ne by simp
  moreover have "dealer_stack (snd (player_draw i g)) = dealer_stack g"
    unfolding eq by simp
  ultimately show ?thesis by blast
qed

lemma player_draw_deals:
  assumes "fst (player_draw i g) = Inr c"
  shows "deals g (snd (player_draw i g))"
proof -
  from player_draw_moves [OF assms] obtain k where
    d: "card_stack g = card_stack (snd (player_draw i g)) @ [c]"
    and h: "dealer_stack (snd (player_draw i g)) = dealer_stack g"
    and k: "k < length (player_stacks g)"
    and p: "player_stacks (snd (player_draw i g)) = (player_stacks g)[k := player_stacks g ! k @ [c]]"
    by blast
  have "prefix (card_stack (snd (player_draw i g))) (card_stack g)"
    unfolding d [symmetric] using d by (metis prefixI)
  moreover have "list_all2 prefix (player_stacks g) (player_stacks (snd (player_draw i g)))"
    unfolding p using k by (rule list_all2_prefix_update)
  ultimately show ?thesis
    unfolding deals_def using h player_draw_cards [OF assms] by simp
qed

lemma player_draw_empty_deals: "card_stack g = [] \<Longrightarrow> deals g (snd (player_draw i g))"
  by (simp add: player_draw_empty deals_refl)

lemma dealer_draw_moves:
  "(fst (dealer_draw silent g) = Inr False \<longrightarrow>
      card_stack g = card_stack (snd (dealer_draw silent g)) @ [last (card_stack g)] \<and>
      dealer_stack (snd (dealer_draw silent g)) = dealer_stack g @ [last (card_stack g)] \<and>
      player_stacks (snd (dealer_draw silent g)) = player_stacks g) \<and>
   (fst (dealer_draw silent g) \<noteq> Inr False \<longrightarrow> snd (dealer_draw silent g) = g)"
  by (simp add: dealer_draw_def draw_card_def Let_def)

lemma dealer_draw_deals: "deals g (snd (dealer_draw silent g))"
proof (cases "fst (dealer_draw silent g) = Inr False")
  case True
  with dealer_draw_moves [of silent g] have
    d: "card_stack g = card_stack (snd (dealer_draw silent g)) @ [last (card_stack g)]"
    and h: "dealer_stack (snd (dealer_draw silent g)) = dealer_stack g @ [last (card_stack g)]"
    and p: "player_stacks (snd (dealer_draw silent g)) = player_stacks g" by simp_all
  have "prefix (card_stack (snd (dealer_draw silent g))) (card_stack g)"
    using d by (metis prefixI)
  then show ?thesis
    unfolding deals_def using h p dealer_draw_cards [of silent g] by (simp add: list_all2_refl)
next
  case False
  with dealer_draw_moves [of silent g] show ?thesis by (simp add: deals_refl)
qed

lemma player_draw_in_range_deals:
  assumes "0 \<le> i" "i < int (length (player_stacks g))"
  shows "deals g (snd (player_draw i g))"
proof (cases "card_stack g = []")
  case True
  then show ?thesis by (rule player_draw_empty_deals)
next
  case False
  with assms have "fst (player_draw i g) = Inr (last (card_stack g))"
    by (simp add: player_draw_in_range Let_def)
  then show ?thesis by (rule player_draw_deals)
qed

lemma initial_deal_deals:
  assumes "length (player_stacks g) = nat (num_players g)"
  shows "deals g (snd (initial_deal g))"
proof -
  let ?p = "num_players g"
  let ?I = "\<lambda>s. deals g s \<and> table_of (cards_in_game g) ?p s"
  obtain r1 s1 where d1: "dealer_draw False g = (r1, s1)" by (cases "dealer_draw False g")
  obtain r2 s2 where d2: "dealer_draw True s1 = (r2, s2)" by (cases "dealer_draw True s1")
  have t0: "table_of (cards_in_game g) ?p g" using assms by (simp add: table_of_def)
  have i1: "?I s1"
    using dealer_draw_deals [of g False] dealer_draw_table [OF t0, of False] d1 by simp
  have i2: "?I s2"
    using dealer_draw_deals [of s1 True] dealer_draw_table [of _ _ s1 True] d2 i1
    by (auto intro: deals_trans)
  have hit: "?I (snd (player_draw i s))" if "0 \<le> i" "i < ?p" "?I s" for i s
  proof -
    from that have "i < int (length (player_stacks s))" by (simp add: table_of_def)
    from player_draw_in_range_deals [OF that(1) this] that show ?thesis
      by (auto intro: deals_trans player_draw_table)
  qed
  have inner: "?I (snd (for_each (py_range 2) (\<lambda>_. player_draw i) s))"
    if "i \<in> set (py_range ?p)" "?I s" for i s
  proof (rule for_each_invariant [where I = ?I])
    show "?I s" by (rule that(2))
  next
    fix x s'
    assume "?I s'"
    with py_range_set [OF that(1)] show "?I (snd (player_draw i s'))" by (intro hit) simp_all
  qed
  have loop: "?I (snd (for_each (py_range ?p)
                 (\<lambda>player_idx. for_each (py_range 2) (\<lambda>_. player_draw player_idx)) s2))"
  proof (rule for_each_invariant [where I = ?I])
    show "?I s2" by (rule i2)
  next
    fix i s
    assume "i \<in> set (py_range ?p)" "?I s"
    then show "?I (snd (for_each (py_range 2) (\<lambda>_. player_draw i) s))" by (rule inner)
  qed
  have p2: "num_players s2 = ?p" using i2 by (simp add: table_of_def)
  show ?thesis
  proof (cases r1)
    case (Inl e)
    with d1 i1 show ?thesis by (simp add: initial_deal_def)
  next
    case r1: (Inr b1)
    show ?thesis
    proof (cases r2)
      case (Inl e)
      with d1 d2 r1 i2 show ?thesis by (simp add: initial_deal_def)
    next
      case (Inr b2)
      with d1 d2 r1 loop p2 show ?thesis by (simp add: initial_deal_def)
    qed
  qed
qed

lemma game_state_deals:
  assumes "game_state shuffle n_decks n_players g"
  shows "deals (projr (Blackjack_init shuffle n_decks n_players)) g \<and>
         length (player_stacks g) = nat (num_players g)"
  using assms
proof (induction rule: game_state.induct)
  case (created g)
  then show ?case by (auto simp add: Blackjack_init_Inr deals_refl)
next
  case (dealt g)
  from dealt.IH initial_deal_deals [of g] have "deals (projr (Blackjack_init shuffle n_decks n_players)) (snd (initial_deal g))"
    by (auto intro: deals_trans)
  moreover have "length (player_stacks (snd (initial_deal g))) = nat (num_players (snd (initial_deal g)))"
  proof -
    have "table_of (cards_in_game g) (num_players g) g" using dealt.IH by (simp add: table_of_def)
    from initial_deal_table [OF this] show ?thesis by (simp add: table_of_def)
  qed
  ultimately show ?case by simp
next
  case (player_hit g player_idx drawn_card g')
  then have f: "fst (player_draw player_idx g) = Inr drawn_card"
    and g': "g' = snd (player_draw player_idx g)" by simp_all
  from player_draw_deals [OF f] player_draw_players [of player_idx g] player_hit.IH
  show ?case unfolding g' by (auto intro: deals_trans)
next
  case (dealer_played g silent)
  from dealer_draw_deals [of g silent] dealer_draw_players [of silent g] dealer_played.IH
  show ?case by (auto intro: deals_trans)
next
  case (turn_recorded g dones turn)
  then show ?case by (simp add: deals_def cards_in_game_def)
qed

text \<open>
  The initial deal on a fresh game with enough cards: a loop whose body never raises
  runs to its end, each player receives two cards, the dealer has received two.
\<close>

lemma py_range_two: "py_range 2 = [0, 1]"
  by code_simp

lemma py_range_nth: "j < nat p \<Longrightarrow> py_range p ! j = int j"
  by (simp add: py_range_def)

lemma single_card_below_17: "calculate_stack_sum [c] < 17"
  by (auto simp add: stack_sum_closed num_aces_def non_ace_sum_def calculate_no_aces_def
      clip_def MAX_ROYALTY_def min_def max_def)

lemma empty_hand_below_17: "calculate_stack_sum [] < 17"
  by (simp add: stack_sum_closed num_aces_def non_ace_sum_def calculate_no_aces_def)

lemma for_each_steps:
  assumes "\<And>j s. j < length xs \<Longrightarrow> J j s \<Longrightarrow>
             (\<exists>v. fst (body (xs ! j) s) = Inr v) \<and> J (Suc j) (snd (body (xs ! j) s))"
    and "J 0 s"
  shows "fst (for_each xs body s) = Inr () \<and> J (length xs) (snd (for_each xs body s))"
  using assms
proof (induction xs arbitrary: s J)
  case Nil
  then show ?case by simp
next
  case (Cons x xs)
  from Cons.prems(1) [of 0 s] Cons.prems(2)
  obtain v where v: "fst (body x s) = Inr v" and j1: "J (Suc 0) (snd (body x s))" by auto
  obtain s' where s': "body x s = (Inr v, s')" using v by (cases "body x s") simp
  have step: "\<And>j t. j < length xs \<Longrightarrow> J (Suc j) t \<Longrightarrow>
      (\<exists>v. fst (body (xs ! j) t) = Inr v) \<and> J (Suc (Suc j)) (snd (body (xs ! j) t))"
    using Cons.prems(1) by fastforce
  from Cons.IH [of "\<lambda>j. J (Suc j)" s', OF step] j1 s'
  have "fst (for_each xs body s') = Inr () \<and> J (Suc (length xs)) (snd (for_each xs body s'))"
    by simp
  with s' show ?case by simp
qed

lemma two_hits:
  assumes "0 \<le> i" "i < int (length (player_stacks s))" "2 \<le> length (card_stack s)"
  shows "for_each (py_range 2) (\<lambda>_. player_draw i) s =
           (Inr (), s\<lparr>card_stack := butlast (butlast (card_stack s)),
                       player_stacks := (player_stacks s)
                         [nat i := player_stacks s ! nat i @
                            [last (card_stack s), last (butlast (card_stack s))]]\<rparr>)"
proof -
  let ?s1 = "s\<lparr>card_stack := butlast (card_stack s),
                 player_stacks := (player_stacks s)
                   [nat i := player_stacks s ! nat i @ [last (card_stack s)]]\<rparr>"
  from assms(3) have ne: "card_stack s \<noteq> []" by auto
  have a: "player_draw i s = (Inr (last (card_stack s)), ?s1)"
    using player_draw_in_range [of s i] ne assms(1,2) by (simp add: Let_def)
  from assms(3) have ne1: "card_stack ?s1 \<noteq> []" by (cases "card_stack s" rule: rev_cases) auto
  have b: "player_draw i ?s1 =
      (Inr (last (card_stack ?s1)),
       ?s1\<lparr>card_stack := butlast (card_stack ?s1),
            player_stacks := (player_stacks ?s1)
              [nat i := player_stacks ?s1 ! nat i @ [last (card_stack ?s1)]]\<rparr>)"
    using player_draw_in_range [of ?s1 i] ne1 assms(1,2) by (simp add: Let_def)
  show ?thesis
    unfolding py_range_two using assms(1,2) by (simp add: a b)
qed

lemma two_dealer_draws:
  assumes "dealer_stack g = []" "2 \<le> length (card_stack g)"
  shows "dealer_draw a g =
           (Inr False, g\<lparr>card_stack := butlast (card_stack g),
                           dealer_stack := [last (card_stack g)]\<rparr>)"
    and "dealer_draw b (g\<lparr>card_stack := butlast (card_stack g),
                           dealer_stack := [last (card_stack g)]\<rparr>) =
           (Inr False, g\<lparr>card_stack := butlast (butlast (card_stack g)),
                           dealer_stack := [last (card_stack g), last (butlast (card_stack g))]\<rparr>)"
proof -
  from assms(2) have ne: "card_stack g \<noteq> []" by auto
  from assms(2) have ne1: "butlast (card_stack g) \<noteq> []"
    by (cases "card_stack g" rule: rev_cases) auto
  show "dealer_draw a g =
           (Inr False, g\<lparr>card_stack := butlast (card_stack g),
                           dealer_stack := [last (card_stack g)]\<rparr>)"
    using ne assms(1) empty_hand_below_17 by (simp add: dealer_draw_def draw_card_def)
  show "dealer_draw b (g\<lparr>card_stack := butlast (card_stack g),
                           dealer_stack := [last (card_stack g)]\<rparr>) =
           (Inr False, g\<lparr>card_stack := butlast (butlast (card_stack g)),
                           dealer_stack := [last (card_stack g), last (butlast (card_stack g))]\<rparr>)"
    using ne1 single_card_below_17 by (simp add: dealer_draw_def draw_card_def)
qed

lemma initial_deal_deals_two_each:
  assumes wf: "length (player_stacks g) = nat (num_players g)"
    and fresh: "dealer_stack g = []"
    and enough: "2 + 2 * nat (num_players g) \<le> length (card_stack g)"
  shows "fst (initial_deal g) = Inr () \<and>
         length (card_stack (snd (initial_deal g))) + (2 + 2 * nat (num_players g))
           = length (card_stack g) \<and>
         dealer_stack (snd (initial_deal g)) = [last (card_stack g), last (butlast (card_stack g))] \<and>
         (\<forall>k < nat (num_players g).
            length (player_stacks (snd (initial_deal g)) ! k) = length (player_stacks g ! k) + 2)"
proof -
  let ?p = "num_players g" and ?n = "nat (num_players g)"
  let ?s2 = "g\<lparr>card_stack := butlast (butlast (card_stack g)),
                 dealer_stack := [last (card_stack g), last (butlast (card_stack g))]\<rparr>"
  let ?J = "\<lambda>j s. num_players s = ?p \<and> length (player_stacks s) = ?n \<and>
                   length (card_stack s) + (2 + 2 * j) = length (card_stack g) \<and>
                   dealer_stack s = [last (card_stack g), last (butlast (card_stack g))] \<and>
                   (\<forall>k < ?n. length (player_stacks s ! k)
                               = length (player_stacks g ! k) + (if k < j then 2 else 0))"
  let ?body = "\<lambda>player_idx. for_each (py_range 2) (\<lambda>_. player_draw player_idx)"
  from enough have two: "2 \<le> length (card_stack g)" by simp
  have start: "initial_deal g = for_each (py_range ?p) ?body ?s2"
    using two_dealer_draws [OF fresh two] by (simp add: initial_deal_def)
  have j0: "?J 0 ?s2" using wf two by simp
  have step: "(\<exists>v. fst (?body (py_range ?p ! j) s) = Inr v) \<and>
              ?J (Suc j) (snd (?body (py_range ?p ! j) s))"
    if "j < length (py_range ?p)" "?J j s" for j s
  proof -
    from that(1) have j: "j < ?n" by (simp add: py_range_length)
    then have idx: "py_range ?p ! j = int j" by (rule py_range_nth)
    from that(2) j enough have deck: "2 \<le> length (card_stack s)" by linarith
    from that(2) j have inr: "int j < int (length (player_stacks s))" by linarith
    have run: "?body (int j) s =
        (Inr (), s\<lparr>card_stack := butlast (butlast (card_stack s)),
                    player_stacks := (player_stacks s)
                      [j := player_stacks s ! j @
                         [last (card_stack s), last (butlast (card_stack s))]]\<rparr>)"
      using two_hits [of "int j" s, OF _ inr deck] by simp
    have "?J (Suc j) (snd (?body (int j) s))"
      unfolding run using that(2) j deck by (auto simp add: nth_list_update)
    then show ?thesis unfolding idx run by simp
  qed
  from for_each_steps [where J = ?J and body = ?body and xs = "py_range ?p", OF step j0]
  have "fst (for_each (py_range ?p) ?body ?s2) = Inr () \<and>
        ?J (length (py_range ?p)) (snd (for_each (py_range ?p) ?body ?s2))"
    by blast
  then show ?thesis unfolding start by (simp add: py_range_length)
qed

lemma player_draw_hits:
  "card_stack g \<noteq> [] \<Longrightarrow> 0 \<le> i \<Longrightarrow> i < int (length (player_stacks g)) \<Longrightarrow>
   player_draw i g =
     (Inr (last (card_stack g)),
      g\<lparr>card_stack := butlast (card_stack g),
         player_stacks := (player_stacks g)
           [nat i := player_stacks g ! nat i @ [last (card_stack g)]]\<rparr>)"
  using player_draw_in_range [of g i] by (simp add: Let_def)

lemma dealer_draw_hits:
  "calculate_stack_sum (dealer_stack g) < 17 \<Longrightarrow> card_stack g \<noteq> [] \<Longrightarrow>
   fst (dealer_draw silent g) = Inr False"
  by (simp add: dealer_draw_def draw_card_def)

text \<open>
  C8, as the code has it.  For a shuffle that only rearranges, the deck built for
  \<open>n_decks\<close> decks has \<open>52 * max n_decks 0\<close> cards: each of the 52 cards of the standard
  deck (the four suits with the ranks 1 to 13, all different) that many times.  In
  every state of a game the deck, the dealer's hand and the players' hands together
  hold exactly these cards, the deck is an initial part of the deck the game began
  with, and the hands hold the cards it has lost.  Step by step:
  \<^item> a draw takes exactly the returned card out of the deck;
  \<^item> a hit that returns a card has taken that card from the end of the deck and
    appended it to one player's hand, and changed no other hand; with a card in the
    deck and an index from 0 up to the number of hands it does so for that hand;
  \<^item> a step of the dealer that returns \<open>False\<close> has moved the last card of the deck to
    the end of the dealer's hand, any other step changes nothing, and below 17 with a
    card in the deck the step returns \<open>False\<close>;
  \<^item> the initial deal, on an object with one hand for each player, only deals; from an
    empty dealer hand and a deck of at least two cards for the dealer and each
    player it returns, the first two cards drawn are the dealer's, and every player
    holds two cards more;
  \<^item> each of these leaves the cards of the game as they were, and no hit, whether it
    returns or raises, adds a card.
\<close>

theorem cards_conserved:
  assumes "\<forall>xs. mset (shuffle xs) = mset xs"
  shows "length (projr (create_stack shuffle n_decks)) = 52 * nat n_decks \<and>
         mset (projr (create_stack shuffle n_decks)) = repeat_mset (nat n_decks) (mset standard_deck) \<and>
         length standard_deck = 52 \<and> distinct standard_deck \<and>
         length SUITS = 4 \<and> distinct SUITS \<and>
         (\<forall>card. card \<in> set standard_deck \<longleftrightarrow>
                   suit card \<in> set SUITS \<and> 1 \<le> number card \<and> number card \<le> 13) \<and>
         (game_state shuffle n_decks n_players g \<longrightarrow>
            cards_in_game g = repeat_mset (nat n_decks) (mset standard_deck)) \<and>
         (fst (draw_card g) = Inr c \<longrightarrow>
            mset (card_stack g) = add_mset c (mset (card_stack (snd (draw_card g))))) \<and>
         (length (player_stacks g) = nat (num_players g) \<longrightarrow>
            cards_in_game (snd (initial_deal g)) = cards_in_game g) \<and>
         (fst (player_draw player_idx g) = Inr c \<longrightarrow>
            cards_in_game (snd (player_draw player_idx g)) = cards_in_game g) \<and>
         cards_in_game (snd (dealer_draw silent g)) = cards_in_game g \<and>
         cards_in_game (snd (player_draw player_idx g)) \<subseteq># cards_in_game g \<and>
         (game_state shuffle n_decks n_players g \<longrightarrow>
            deals (projr (Blackjack_init shuffle n_decks n_players)) g) \<and>
         (fst (player_draw player_idx g) = Inr c \<longrightarrow>
            card_stack g = card_stack (snd (player_draw player_idx g)) @ [c] \<and>
            dealer_stack (snd (player_draw player_idx g)) = dealer_stack g \<and>
            (\<exists>k < length (player_stacks g).
               player_stacks (snd (player_draw player_idx g))
                 = (player_stacks g)[k := player_stacks g ! k @ [c]])) \<and>
         (card_stack g \<noteq> [] \<and> 0 \<le> player_idx \<and> player_idx < int (length (player_stacks g)) \<longrightarrow>
            player_draw player_idx g =
              (Inr (last (card_stack g)),
               g\<lparr>card_stack := butlast (card_stack g),
                  player_stacks := (player_stacks g)
                    [nat player_idx := player_stacks g ! nat player_idx @ [last (card_stack g)]]\<rparr>)) \<and>
         (fst (dealer_draw silent g) = Inr False \<longrightarrow>
            card_stack g = card_stack (snd (dealer_draw silent g)) @ [last (card_stack g)] \<and>
            dealer_stack (snd (dealer_draw silent g)) = dealer_stack g @ [last (card_stack g)] \<and>
            player_stacks (snd (dealer_draw silent g)) = player_stacks g) \<and>
         (fst (dealer_draw silent g) \<noteq> Inr False \<longrightarrow> snd (dealer_draw silent g) = g) \<and>
         (calculate_stack_sum (dealer_stack g) < 17 \<and> card_stack g \<noteq> [] \<longrightarrow>
            fst (dealer_draw silent g) = Inr False) \<and>
         (length (player_stacks g) = nat (num_players g) \<longrightarrow> deals g (snd (initial_deal g))) \<and>
         (length (player_stacks g) = nat (num_players g) \<and> dealer_stack g = [] \<and>
            2 + 2 * nat (num_players g) \<le> length (card_stack g) \<longrightarrow>
            fst (initial_deal g) = Inr () \<and>
            length (card_stack (snd (initial_deal g))) + (2 + 2 * nat (num_players g))
              = length (card_stack g) \<and>
            dealer_stack (snd (initial_deal g))
              = [last (card_stack g), last (butlast (card_stack g))] \<and>
            (\<forall>k < nat (num_players g).
               length (player_stacks (snd (initial_deal g)) ! k)
                 = length (player_stacks g ! k) + 2))"
proof -
  have composition:
    "length (projr (create_stack shuffle n_decks)) = 52 * nat n_decks \<and>
     mset (projr (create_stack shuffle n_decks)) = repeat_mset (nat n_decks) (mset standard_deck) \<and>
     length standard_deck = 52 \<and> distinct standard_deck \<and>
     length SUITS = 4 \<and> distinct SUITS \<and>
     (\<forall>card. card \<in> set standard_deck \<longleftrightarrow>
               suit card \<in> set SUITS \<and> 1 \<le> number card \<and> number card \<le> 13)"
    using create_stack_cards [OF assms, of n_decks] standard_deck_length standard_deck_distinct
      SUITS_four standard_deck_members by simp
  have invariant:
    "game_state shuffle n_decks n_players g \<longrightarrow>
       cards_in_game g = repeat_mset (nat n_decks) (mset standard_deck)"
    using game_state_table [OF assms, of n_decks n_players g] by (simp add: table_of_def)
  have totals:
    "(fst (draw_card g) = Inr c \<longrightarrow>
        mset (card_stack g) = add_mset c (mset (card_stack (snd (draw_card g))))) \<and>
     (length (player_stacks g) = nat (num_players g) \<longrightarrow>
        cards_in_game (snd (initial_deal g)) = cards_in_game g) \<and>
     (fst (player_draw player_idx g) = Inr c \<longrightarrow>
        cards_in_game (snd (player_draw player_idx g)) = cards_in_game g) \<and>
     cards_in_game (snd (dealer_draw silent g)) = cards_in_game g \<and>
     cards_in_game (snd (player_draw player_idx g)) \<subseteq># cards_in_game g"
    using draw_card_removes_one [of g c] initial_deal_cards [of g]
      player_draw_cards [of player_idx g c] dealer_draw_cards [of silent g]
      player_draw_never_adds [of player_idx g] by simp
  have reach:
    "game_state shuffle n_decks n_players g \<longrightarrow>
       deals (projr (Blackjack_init shuffle n_decks n_players)) g"
    using game_state_deals [of shuffle n_decks n_players g] by simp
  have hit:
    "fst (player_draw player_idx g) = Inr c \<longrightarrow>
       card_stack g = card_stack (snd (player_draw player_idx g)) @ [c] \<and>
       dealer_stack (snd (player_draw player_idx g)) = dealer_stack g \<and>
       (\<exists>k < length (player_stacks g).
          player_stacks (snd (player_draw player_idx g))
            = (player_stacks g)[k := player_stacks g ! k @ [c]])"
    using player_draw_moves [of player_idx g c] by blast
  have hit_live:
    "card_stack g \<noteq> [] \<and> 0 \<le> player_idx \<and> player_idx < int (length (player_stacks g)) \<longrightarrow>
       player_draw player_idx g =
         (Inr (last (card_stack g)),
          g\<lparr>card_stack := butlast (card_stack g),
             player_stacks := (player_stacks g)
               [nat player_idx := player_stacks g ! nat player_idx @ [last (card_stack g)]]\<rparr>)"
    using player_draw_hits [of g player_idx] by blast
  have dealer:
    "(fst (dealer_draw silent g) = Inr False \<longrightarrow>
        card_stack g = card_stack (snd (dealer_draw silent g)) @ [last (card_stack g)] \<and>
        dealer_stack (snd (dealer_draw silent g)) = dealer_stack g @ [last (card_stack g)] \<and>
        player_stacks (snd (dealer_draw silent g)) = player_stacks g) \<and>
     (fst (dealer_draw silent g) \<noteq> Inr False \<longrightarrow> snd (dealer_draw silent g) = g) \<and>
     (calculate_stack_sum (dealer_stack g) < 17 \<and> card_stack g \<noteq> [] \<longrightarrow>
        fst (dealer_draw silent g) = Inr False)"
    using dealer_draw_moves [of silent g] dealer_draw_hits [of g silent] by blast
  have deal:
    "(length (player_stacks g) = nat (num_players g) \<longrightarrow> deals g (snd (initial_deal g))) \<and>
     (length (player_stacks g) = nat (num_players g) \<and> dealer_stack g = [] \<and>
        2 + 2 * nat (num_players g) \<le> length (card_stack g) \<longrightarrow>
        fst (initial_deal g) = Inr () \<and>
        length (card_stack (snd (initial_deal g))) + (2 + 2 * nat (num_players g))
          = length (card_stack g) \<and>
        dealer_stack (snd (initial_deal g))
          = [last (card_stack g), last (butlast (card_stack g))] \<and>
        (\<forall>k < nat (num_players g).
           length (player_stacks (snd (initial_deal g)) ! k)
             = length (player_stacks g ! k) + 2))"
    using initial_deal_deals [of g] initial_deal_deals_two_each [of g] by blast
  from composition invariant totals reach hit hit_live dealer deal show ?thesis
    by (intro conjI) (erule conjE | assumption)+
qed

theorem cards_conserved_witness:
  "length (projr (create_stack rev 2)) = 104 \<and>
   game_state rev 1 1 (snd (initial_deal (projr (Blackjack_init rev 1 1)))) \<and>
   cards_in_game (snd (initial_deal (projr (Blackjack_init rev 1 1)))) = mset standard_deck \<and>
   deals (projr (Blackjack_init rev 1 1)) (snd (initial_deal (projr (Blackjack_init rev 1 1)))) \<and>
   length (player_stacks (projr (Blackjack_init rev 1 1))) = nat (num_players (projr (Blackjack_init rev 1 1))) \<and>
   cards_in_game (snd (initial_deal (projr (Blackjack_init rev 1 1))))
     = cards_in_game (projr (Blackjack_init rev 1 1)) \<and>
   fst (initial_deal (projr (Blackjack_init rev 1 1))) = Inr () \<and>
   length (card_stack (snd (initial_deal (projr (Blackjack_init rev 1 1))))) + 4 = 52 \<and>
   dealer_stack (snd (initial_deal (projr (Blackjack_init rev 1 1))))
     = [\<lparr>suit = ''Spades'', number = 1\<rparr>, \<lparr>suit = ''Spades'', number = 2\<rparr>] \<and>
   length (player_stacks (snd (initial_deal (projr (Blackjack_init rev 1 1)))) ! 0) = 2 \<and>
   fst (player_draw 0 (projr (Blackjack_init rev 1 1))) = Inr \<lparr>suit = ''Spades'', number = 1\<rparr> \<and>
   cards_in_game (snd (player_draw 0 (projr (Blackjack_init rev 1 1))))
     = cards_in_game (projr (Blackjack_init rev 1 1)) \<and>
   card_stack (projr (Blackjack_init rev 1 1))
     = card_stack (snd (player_draw 0 (projr (Blackjack_init rev 1 1))))
         @ [\<lparr>suit = ''Spades'', number = 1\<rparr>] \<and>
   player_stacks (snd (player_draw 0 (projr (Blackjack_init rev 1 1))))
     = [[\<lparr>suit = ''Spades'', number = 1\<rparr>]] \<and>
   fst (draw_card (projr (Blackjack_init rev 1 1))) = Inr \<lparr>suit = ''Spades'', number = 1\<rparr> \<and>
   mset (card_stack (projr (Blackjack_init rev 1 1)))
     = add_mset \<lparr>suit = ''Spades'', number = 1\<rparr>
         (mset (card_stack (snd (draw_card (projr (Blackjack_init rev 1 1)))))) \<and>
   fst (dealer_draw False (projr (Blackjack_init rev 1 1))) = Inr False \<and>
   dealer_stack (snd (dealer_draw False (projr (Blackjack_init rev 1 1))))
     = [\<lparr>suit = ''Spades'', number = 1\<rparr>] \<and>
   card_stack (projr (Blackjack_init rev 1 1))
     = card_stack (snd (dealer_draw False (projr (Blackjack_init rev 1 1))))
         @ [\<lparr>suit = ''Spades'', number = 1\<rparr>] \<and>
   snd (dealer_draw False (projr (Blackjack_init rev 0 1))) = projr (Blackjack_init rev 0 1)"
proof -
  let ?g = "projr (Blackjack_init rev 1 1)"
  let ?e = "projr (Blackjack_init rev 0 1)"
  let ?ace = "\<lparr>suit = ''Spades'', number = 1\<rparr>"
  have perm: "\<forall>xs :: Card list. mset (rev xs) = mset xs" by simp
  have reach: "game_state rev 1 1 (snd (initial_deal ?g))"
    by (rule game_state.dealt, rule game_state.created) (simp add: Blackjack_init_Inr)
  have wf: "length (player_stacks ?g) = nat (num_players ?g)"
    by (simp add: Blackjack_init_Inr)
  have fresh: "dealer_stack ?g = []" by (simp add: Blackjack_init_Inr)
  have enough: "2 + 2 * nat (num_players ?g) \<le> length (card_stack ?g)"
    by (simp add: Blackjack_init_Inr standard_deck_length)
  have top: "last (card_stack ?g) = ?ace \<and> last (butlast (card_stack ?g)) = \<lparr>suit = ''Spades'', number = 2\<rparr>
             \<and> card_stack ?g \<noteq> [] \<and> length (card_stack ?g) = 52
             \<and> player_stacks ?g = [[]] \<and> num_players ?g = 1"
    by code_simp
  have d: "fst (draw_card ?g) = Inr ?ace" by code_simp
  have h: "fst (player_draw 0 ?g) = Inr ?ace" by code_simp
  have dd: "fst (dealer_draw False ?g) = Inr False" by code_simp
  have de: "fst (dealer_draw False ?e) \<noteq> Inr False" by code_simp
  note a = cards_conserved [OF perm, where n_decks = 2]
  note b = cards_conserved [OF perm, where n_decks = 1 and n_players = 1
      and g = "snd (initial_deal ?g)"]
  note c = cards_conserved [OF perm, where g = ?g and player_idx = 0 and c = ?ace
      and silent = False]
  note e = cards_conserved [OF perm, where g = ?e and silent = False]
  have one: "0 < nat (num_players ?g)" using top by simp
  have idx: "card_stack ?g \<noteq> [] \<and> (0::int) \<le> 0 \<and> 0 < int (length (player_stacks ?g))"
    using top by simp
  have low: "calculate_stack_sum (dealer_stack ?g) < 17 \<and> card_stack ?g \<noteq> []"
    using top fresh empty_hand_below_17 by simp
  have r1: "length (projr (create_stack rev 2)) = 52 * nat 2" using a by blast
  have r2: "cards_in_game (snd (initial_deal ?g)) = repeat_mset (nat 1) (mset standard_deck)"
    using b reach by blast
  have r3: "deals ?g (snd (initial_deal ?g))" using b reach by blast
  have r4: "cards_in_game (snd (initial_deal ?g)) = cards_in_game ?g" using c wf by blast
  have r5: "fst (initial_deal ?g) = Inr () \<and>
      length (card_stack (snd (initial_deal ?g))) + (2 + 2 * nat (num_players ?g))
        = length (card_stack ?g) \<and>
      dealer_stack (snd (initial_deal ?g)) = [last (card_stack ?g), last (butlast (card_stack ?g))] \<and>
      (\<forall>k < nat (num_players ?g).
         length (player_stacks (snd (initial_deal ?g)) ! k) = length (player_stacks ?g ! k) + 2)"
    using c wf fresh enough by blast
  have r6: "cards_in_game (snd (player_draw 0 ?g)) = cards_in_game ?g" using c h by blast
  have r7: "card_stack ?g = card_stack (snd (player_draw 0 ?g)) @ [?ace]" using c h by blast
  have r8: "player_draw 0 ?g =
      (Inr (last (card_stack ?g)),
       ?g\<lparr>card_stack := butlast (card_stack ?g),
           player_stacks := (player_stacks ?g)
             [nat 0 := player_stacks ?g ! nat 0 @ [last (card_stack ?g)]]\<rparr>)"
    using c idx by blast
  have r9: "mset (card_stack ?g) = add_mset ?ace (mset (card_stack (snd (draw_card ?g))))"
    using c d by blast
  have r10: "card_stack ?g = card_stack (snd (dealer_draw False ?g)) @ [last (card_stack ?g)] \<and>
      dealer_stack (snd (dealer_draw False ?g)) = dealer_stack ?g @ [last (card_stack ?g)]"
    using c dd by blast
  have r11: "fst (dealer_draw False ?g) = Inr False" using c low by blast
  have r12: "snd (dealer_draw False ?e) = ?e" using e de by blast
  have s1: "length (projr (create_stack rev 2)) = 104" using r1 by simp
  have s2: "cards_in_game (snd (initial_deal ?g)) = mset standard_deck" using r2 by simp
  have s5: "length (card_stack (snd (initial_deal ?g))) + 4 = 52 \<and>
      dealer_stack (snd (initial_deal ?g)) = [?ace, \<lparr>suit = ''Spades'', number = 2\<rparr>] \<and>
      length (player_stacks (snd (initial_deal ?g)) ! 0) = 2"
    using r5 one top by simp
  have s8: "player_stacks (snd (player_draw 0 ?g)) = [[?ace]]"
    unfolding r8 using top by simp
  have s10: "dealer_stack (snd (dealer_draw False ?g)) = [?ace] \<and>
      card_stack ?g = card_stack (snd (dealer_draw False ?g)) @ [?ace]"
    using r10 top fresh by simp
  from r5 have s0: "fst (initial_deal ?g) = Inr ()" by blast
  show ?thesis
    using s1 reach s2 r3 wf r4 s0 s5 h r6 r7 s8 d r9 r11 s10 r12
    by (intro conjI) (erule conjE | assumption)+
qed

text \<open>
  C8, as stated, fails for a hit that raises on its index: the card has left the deck
  and is in no hand, so the game holds one card less.
\<close>

theorem failed_hit_loses_card_counterexample:
  "player_draw 1 \<lparr>num_decks = 1, num_players = 1,
      card_stack = [\<lparr>suit = ''Clubs'', number = 4\<rparr>, \<lparr>suit = ''Hearts'', number = 5\<rparr>],
      dealer_stack = [\<lparr>suit = ''Spades'', number = 13\<rparr>, \<lparr>suit = ''Spades'', number = 7\<rparr>],
      player_stacks = [[\<lparr>suit = ''Hearts'', number = 10\<rparr>, \<lparr>suit = ''Clubs'', number = 9\<rparr>]],
      player_dones = [False], current_turn = 0\<rparr>
   = (Inl (IndexError ''list index out of range''),
      \<lparr>num_decks = 1, num_players = 1,
       card_stack = [\<lparr>suit = ''Clubs'', number = 4\<rparr>],
       dealer_stack = [\<lparr>suit = ''Spades'', number = 13\<rparr>, \<lparr>suit = ''Spades'', number = 7\<rparr>],
       player_stacks = [[\<lparr>suit = ''Hearts'', number = 10\<rparr>, \<lparr>suit = ''Clubs'', number = 9\<rparr>]],
       player_dones = [False], current_turn = 0\<rparr>) \<and>
   fst (player_draw 1 (projr (Blackjack_init (\<lambda>xs. xs) 1 1)))
     = Inl (IndexError ''list index out of range'') \<and>
   size (cards_in_game (projr (Blackjack_init (\<lambda>xs. xs) 1 1))) = 52 \<and>
   size (cards_in_game (snd (player_draw 1 (projr (Blackjack_init (\<lambda>xs. xs) 1 1))))) = 51"
  unfolding cards_in_game_def size_union size_mset by code_simp

end
